theory Spec2Isabelle
  imports Main "HOL-Library.Multiset"
begin

section \<open>JavaScript values used by the plugin\<close>

text \<open>
  A JavaScript \<open>Date\<close> holds a time value: a whole number of milliseconds since the
  epoch, or NaN (an "Invalid Date"). \<open>Some t\<close> is the valid date with time value \<open>t\<close>,
  \<open>None\<close> is the Invalid Date. The relational operators on dates compare the time
  values as numbers, and every comparison with NaN is false.
\<close>

type_synonym Date = "int option"

definition date_gt :: "Date \<Rightarrow> Date \<Rightarrow> bool" where
  "date_gt a b = (case a of None \<Rightarrow> False | Some x \<Rightarrow> (case b of None \<Rightarrow> False | Some y \<Rightarrow> x > y))"

definition date_ge :: "Date \<Rightarrow> Date \<Rightarrow> bool" where
  "date_ge a b = (case a of None \<Rightarrow> False | Some x \<Rightarrow> (case b of None \<Rightarrow> False | Some y \<Rightarrow> x \<ge> y))"

definition date_lt :: "Date \<Rightarrow> Date \<Rightarrow> bool" where
  "date_lt a b = (case a of None \<Rightarrow> False | Some x \<Rightarrow> (case b of None \<Rightarrow> False | Some y \<Rightarrow> x < y))"

definition date_le :: "Date \<Rightarrow> Date \<Rightarrow> bool" where
  "date_le a b = (case a of None \<Rightarrow> False | Some x \<Rightarrow> (case b of None \<Rightarrow> False | Some y \<Rightarrow> x \<le> y))"

text \<open>
  \<open>new Date(n)\<close> for a number \<open>n\<close>: the time value is clipped (TimeClip), a number
  beyond 8.64e15 milliseconds on either side gives the Invalid Date.
\<close>

definition maxTime :: int where
  "maxTime = 8640000000000000"

definition timeClip :: "int \<Rightarrow> Date" where
  "timeClip t = (if - maxTime \<le> t \<and> t \<le> maxTime then Some t else None)"

text \<open>
  Number to string, as string concatenation and template literals do it for a whole
  number below 1e21 in size: decimal digits, a leading minus sign for a negative number;
  NaN prints as \<open>NaN\<close>.
\<close>

definition digitChar :: "nat \<Rightarrow> char" where
  "digitChar d = ''0123456789'' ! d"

fun natToString :: "nat \<Rightarrow> string" where
  "natToString n =
     (if n < 10 then [digitChar n] else natToString (n div 10) @ [digitChar (n mod 10)])"

declare natToString.simps [simp del]

definition numberToString :: "int \<Rightarrow> string" where
  "numberToString n =
     (if n < 0 then CHR ''-'' # natToString (nat (- n)) else natToString (nat n))"

definition timeToString :: "Date \<Rightarrow> string" where
  "timeToString d = (case d of None \<Rightarrow> ''NaN'' | Some t \<Rightarrow> numberToString t)"

text \<open>
  \<open>a || b\<close> on an optional string: \<open>null\<close>, \<open>undefined\<close> and the empty string are
  falsy.
\<close>

definition orElse :: "string option \<Rightarrow> string \<Rightarrow> string" where
  "orElse v d = (case v of None \<Rightarrow> d | Some s \<Rightarrow> if s = [] then d else s)"

section \<open>Dates as ISO strings\<close>

text \<open>
  \<open>Date.prototype.toISOString\<close> and \<open>new Date(string)\<close> are the two runtime functions
  the event store goes through; they are modelled after ECMA-262 (Date objects). A time
  value splits into a day number and the milliseconds within the day; \<open>DayFromYear\<close>,
  \<open>InLeapYear\<close> and the month table are those of the standard. \<open>YearFromDay d\<close> is the
  year that contains day \<open>d\<close>: a first estimate from the mean length of a year, moved
  forward while the next year has started already.
\<close>

definition day_ms :: int where
  "day_ms = 86400000"

definition DayFromYear :: "int \<Rightarrow> int" where
  "DayFromYear y = 365 * (y - 1970) + (y - 1969) div 4 - (y - 1901) div 100 + (y - 1601) div 400"

definition InLeapYear :: "int \<Rightarrow> bool" where
  "InLeapYear y = (y mod 4 = 0 \<and> (y mod 100 \<noteq> 0 \<or> y mod 400 = 0))"

fun yearSearch :: "nat \<Rightarrow> int \<Rightarrow> int \<Rightarrow> int" where
  "yearSearch 0 y d = y"
| "yearSearch (Suc n) y d = (if DayFromYear (y + 1) \<le> d then yearSearch n (y + 1) d else y)"

definition YearFromDay :: "int \<Rightarrow> int" where
  "YearFromDay d = yearSearch (Suc (Suc (Suc 0))) (1969 + (400 * d) div 146097) d"

text \<open>
  The day within the year on which month \<open>m\<close> (from 0) starts, the length of a month,
  and the month of a day within the year.
\<close>

definition monthStart :: "bool \<Rightarrow> nat \<Rightarrow> int" where
  "monthStart leap m =
     (if m = 0 then 0 else if m = 1 then 31
      else (if leap then 1 else 0) +
        (if m = 2 then 59 else if m = 3 then 90 else if m = 4 then 120 else if m = 5 then 151
         else if m = 6 then 181 else if m = 7 then 212 else if m = 8 then 243
         else if m = 9 then 273 else if m = 10 then 304 else 334))"

definition daysInMonth :: "bool \<Rightarrow> nat \<Rightarrow> int" where
  "daysInMonth leap m =
     (if m = 1 then (if leap then 29 else 28)
      else if m = 3 \<or> m = 5 \<or> m = 8 \<or> m = 10 then 30 else 31)"

definition MonthFromDay :: "bool \<Rightarrow> int \<Rightarrow> nat" where
  "MonthFromDay leap dw =
     (let l = (if leap then 1 else 0) in
      if dw < 31 then 0 else if dw < 59 + l then 1 else if dw < 90 + l then 2
      else if dw < 120 + l then 3 else if dw < 151 + l then 4 else if dw < 181 + l then 5
      else if dw < 212 + l then 6 else if dw < 243 + l then 7 else if dw < 273 + l then 8
      else if dw < 304 + l then 9 else if dw < 334 + l then 10 else 11)"

text \<open>
  Decimal fields of a fixed width: \<open>pad w n\<close> writes the last \<open>w\<close> digits of \<open>n\<close>,
  \<open>readNat\<close> reads a string of digits.
\<close>

fun pad :: "nat \<Rightarrow> nat \<Rightarrow> string" where
  "pad 0 n = []"
| "pad (Suc w) n = digitChar ((n div 10 ^ w) mod 10) # pad w n"

definition digitValue :: "char \<Rightarrow> nat" where
  "digitValue c = of_char c - 48"

definition isDigit :: "char \<Rightarrow> bool" where
  "isDigit c = (48 \<le> (of_char c :: nat) \<and> (of_char c :: nat) \<le> 57)"

definition readNat :: "string \<Rightarrow> nat" where
  "readNat s = foldl (\<lambda>a c. 10 * a + digitValue c) 0 s"

text \<open>
  \<open>toISOString\<close> on a valid time value: \<open>YYYY-MM-DDTHH:mm:ss.sssZ\<close> in UTC, the year
  with four digits from 0 to 9999 and as a sign and six digits otherwise.
\<close>

definition yearString :: "int \<Rightarrow> string" where
  "yearString y =
     (if 0 \<le> y \<and> y \<le> 9999 then pad 4 (nat y)
      else (if y < 0 then CHR ''-'' else CHR ''+'') # pad 6 (nat \<bar>y\<bar>))"

definition isoText :: "string \<Rightarrow> nat \<Rightarrow> nat \<Rightarrow> nat \<Rightarrow> nat \<Rightarrow> nat \<Rightarrow> nat \<Rightarrow> string" where
  "isoText ys mo dt hh mi ss ms =
     ys @ ''-'' @ pad 2 mo @ ''-'' @ pad 2 dt @ ''T'' @ pad 2 hh @ '':'' @ pad 2 mi @ '':'' @
     pad 2 ss @ ''.'' @ pad 3 ms @ ''Z''"

definition toISOString :: "int \<Rightarrow> string" where
  "toISOString t =
     (let d = t div day_ms;
          tw = t mod day_ms;
          y = YearFromDay d;
          leap = InLeapYear y;
          dw = d - DayFromYear y;
          m = MonthFromDay leap dw;
          dt = nat (dw - monthStart leap m) + 1
      in isoText (yearString y) (m + 1) dt (nat (tw div 3600000)) (nat (tw div 60000 mod 60))
           (nat (tw div 1000 mod 60)) (nat (tw mod 1000)))"

text \<open>
  \<open>new Date(string)\<close> on a string of that form: the fields are read, a field out of
  range gives the Invalid Date, and the time value is MakeDate of MakeDay and MakeTime,
  clipped. The year \<open>-000000\<close> is not accepted. JavaScript reads further forms (a date
  alone, a time zone offset, the formats of an implementation); \<open>saveEvents\<close> writes none
  of them, and every string that is not of the form above is the Invalid Date here.
\<close>

definition makeDate :: "int \<Rightarrow> nat \<Rightarrow> nat \<Rightarrow> nat \<Rightarrow> nat \<Rightarrow> nat \<Rightarrow> nat \<Rightarrow> Date" where
  "makeDate y mo dt hh mi ss ms =
     (if 1 \<le> mo \<and> mo \<le> 12 \<and> 1 \<le> dt \<and> int dt \<le> daysInMonth (InLeapYear y) (mo - 1) \<and>
         hh < 24 \<and> mi < 60 \<and> ss < 60
      then timeClip ((DayFromYear y + monthStart (InLeapYear y) (mo - 1) + int dt - 1) * day_ms
                     + (int hh * 3600000 + int mi * 60000 + int ss * 1000 + int ms))
      else None)"

definition parseFields :: "int \<Rightarrow> nat \<Rightarrow> string \<Rightarrow> Date" where
  "parseFields sign w s =
     (let ys = take w s; r = drop w s;
          mo = take 2 (drop 1 r); dt = take 2 (drop 4 r); hh = take 2 (drop 7 r);
          mi = take 2 (drop 10 r); ss = take 2 (drop 13 r); ms = take 3 (drop 16 r)
      in if length s = w + 20 \<and> r ! 0 = CHR ''-'' \<and> r ! 3 = CHR ''-'' \<and> r ! 6 = CHR ''T'' \<and>
            r ! 9 = CHR '':'' \<and> r ! 12 = CHR '':'' \<and> r ! 15 = CHR ''.'' \<and> r ! 19 = CHR ''Z'' \<and>
            list_all isDigit (ys @ mo @ dt @ hh @ mi @ ss @ ms)
         then makeDate (sign * int (readNat ys)) (readNat mo) (readNat dt) (readNat hh)
                (readNat mi) (readNat ss) (readNat ms)
         else None)"

definition newDateFromString :: "string \<Rightarrow> Date" where
  "newDateFromString s =
     (case s of
        [] \<Rightarrow> None
      | c # r \<Rightarrow>
          if c = CHR ''+'' then parseFields 1 6 r
          else if c = CHR ''-''
          then (if take 6 r = ''000000'' then None else parseFields (- 1) 6 r)
          else parseFields 1 4 s)"

section \<open>Data model\<close>

record MeetingNotesSettings =
  icsUrl :: string
  templatePath :: string
  notesFolder :: string
  trimTeamsLinks :: bool
  hideAllDayEvents :: bool

definition DEFAULT_SETTINGS :: MeetingNotesSettings where
  "DEFAULT_SETTINGS =
     \<lparr> icsUrl = '''', templatePath = ''Templates/Meeting'', notesFolder = ''Notes'',
       trimTeamsLinks = True, hideAllDayEvents = False \<rparr>"

text \<open>The interface \<open>CalendarEvent\<close>; its field \<open>end\<close> is \<open>end'\<close> here.\<close>

record CalendarEvent =
  uid :: string
  summary :: string
  description :: string
  location :: string
  start :: Date
  end' :: Date
  attendees :: "string list"

text \<open>
  The \<open>cn\<close> parameter of an attendee property, as \<open>prop.getParameter('cn')\<close> returns
  it: absent, one string, or an array of strings.
\<close>

datatype cn_param = CnAbsent | CnString string | CnArray "string list"

text \<open>
  One VEVENT as the plugin reads it through ical.js (\<open>ICAL.Event\<close>,
  \<open>ICAL.RecurExpansion\<close>): the library is not part of the repository, so what it
  returns is data of the descriptor. \<open>v_startDate\<close> and \<open>v_endDate\<close> are
  \<open>event.startDate.toJSDate()\<close> and \<open>event.endDate.toJSDate()\<close>, \<open>v_duration\<close> is
  \<open>event.duration.toSeconds()\<close>, and \<open>v_next k\<close> is what the call number \<open>k\<close>
  (from 0) of \<open>expand.next()\<close> returns, converted by \<open>toJSDate()\<close>: \<open>None\<close> when the
  iterator is exhausted (a falsy result, which ends the loop).
\<close>

record vevent =
  v_uid :: string
  v_summary :: "string option"
  v_description :: "string option"
  v_location :: "string option"
  v_startDate :: Date
  v_endDate :: Date
  v_duration :: int
  v_isRecurring :: bool
  v_next :: "nat \<Rightarrow> Date option"
  v_attendeeProps :: "cn_param list"

section \<open>parseICSData: materialization\<close>

text \<open>Attendee extraction: the loop over \<open>attendeeProps\<close>.\<close>

fun extractAttendees :: "cn_param list \<Rightarrow> string list \<Rightarrow> string list" where
  "extractAttendees [] names = names"
| "extractAttendees (CnAbsent # props) names = extractAttendees props names"
| "extractAttendees (CnString cn # props) names =
     extractAttendees props (if cn = [] then names else names @ [cn])"
| "extractAttendees (CnArray cn # props) names = extractAttendees props (names @ cn)"

text \<open>
  The date range. \<open>setDate(getDate() - 28)\<close> moves a date by 28 local calendar days; in
  a time zone with a fixed offset that is 28 times 86400000 milliseconds.
\<close>

definition fourWeeksAgo :: "int \<Rightarrow> Date" where
  "fourWeeksAgo today = timeClip (today - 28 * day_ms)"

definition sixWeeksLater :: "int \<Rightarrow> Date" where
  "sixWeeksLater today = timeClip (today + 42 * day_ms)"

text \<open>The object pushed for one occurrence of a recurring event.\<close>

definition occurrenceEvent :: "vevent \<Rightarrow> string list \<Rightarrow> Date \<Rightarrow> CalendarEvent" where
  "occurrenceEvent event atts occurrence =
     (let duration = v_duration event * 1000;
          endDate = (case occurrence of None \<Rightarrow> None | Some t \<Rightarrow> timeClip (t + duration))
      in \<lparr> uid = v_uid event @ ''-'' @ timeToString occurrence,
           summary = orElse (v_summary event) ''Untitled Event'',
           description = orElse (v_description event) '''',
           location = orElse (v_location event) '''',
           start = occurrence,
           end' = endDate,
           attendees = atts \<rparr>)"

text \<open>The object pushed for a single event.\<close>

definition singleEvent :: "vevent \<Rightarrow> string list \<Rightarrow> CalendarEvent" where
  "singleEvent event atts =
     \<lparr> uid = v_uid event,
       summary = orElse (v_summary event) ''Untitled Event'',
       description = orElse (v_description event) '''',
       location = orElse (v_location event) '''',
       start = v_startDate event,
       end' = v_endDate event,
       attendees = atts \<rparr>"

text \<open>
  The loop \<open>while ((next = expand.next())) { ... }\<close>, from call number \<open>k\<close> of
  \<open>expand.next()\<close> on, with \<open>allEvents\<close> as accumulated so far. The loop may run
  forever: the result is \<open>None\<close> then, and \<open>Some\<close> of the list when the loop is left.
\<close>

partial_function (option) expandLoop ::
  "Date \<Rightarrow> Date \<Rightarrow> vevent \<Rightarrow> string list \<Rightarrow> nat \<Rightarrow> CalendarEvent list \<Rightarrow> CalendarEvent list option"
where
  "expandLoop windowStart windowEnd event atts k allEvents =
     (case v_next event k of
        None \<Rightarrow> Some allEvents
      | Some occurrence \<Rightarrow>
          if date_gt occurrence windowEnd then Some allEvents
          else if date_ge occurrence windowStart \<and> date_le occurrence windowEnd
          then expandLoop windowStart windowEnd event atts (Suc k)
                 (allEvents @ [occurrenceEvent event atts occurrence])
          else expandLoop windowStart windowEnd event atts (Suc k) allEvents)"

text \<open>The body of \<open>vevents.forEach\<close> for one VEVENT.\<close>

definition addEvent ::
  "Date \<Rightarrow> Date \<Rightarrow> vevent \<Rightarrow> CalendarEvent list \<Rightarrow> CalendarEvent list option" where
  "addEvent windowStart windowEnd event allEvents =
     (let atts = extractAttendees (v_attendeeProps event) [] in
      if v_isRecurring event
      then expandLoop windowStart windowEnd event atts 0 allEvents
      else if date_ge (v_startDate event) windowStart \<and> date_le (v_startDate event) windowEnd
      then Some (allEvents @ [singleEvent event atts])
      else Some allEvents)"

fun collectEvents ::
  "Date \<Rightarrow> Date \<Rightarrow> vevent list \<Rightarrow> CalendarEvent list \<Rightarrow> CalendarEvent list option" where
  "collectEvents windowStart windowEnd [] allEvents = Some allEvents"
| "collectEvents windowStart windowEnd (event # vevents) allEvents =
     (case addEvent windowStart windowEnd event allEvents of
        None \<Rightarrow> None
      | Some allEvents' \<Rightarrow> collectEvents windowStart windowEnd vevents allEvents')"

text \<open>
  Deduplication. The key is the template string \<open>`${event.summary}-${event.start.getTime()}`\<close>;
  \<open>uniqueEvents\<close> is a \<open>Map\<close>, which keeps its entries in insertion order.
\<close>

definition eventKey :: "CalendarEvent \<Rightarrow> string" where
  "eventKey event = summary event @ ''-'' @ timeToString (start event)"

fun dedupe :: "CalendarEvent list \<Rightarrow> (string \<times> CalendarEvent) list \<Rightarrow> (string \<times> CalendarEvent) list" where
  "dedupe [] uniqueEvents = uniqueEvents"
| "dedupe (event # allEvents) uniqueEvents =
     (if eventKey event \<in> set (map fst uniqueEvents)
      then dedupe allEvents uniqueEvents
      else dedupe allEvents (uniqueEvents @ [(eventKey event, event)]))"

text \<open>
  \<open>Array.prototype.sort\<close> with a comparator is a stable sort; a comparator result that
  is NaN counts as 0. \<open>None\<close> is NaN here. For a comparator that is a consistent
  ordering every stable sort returns the list below; for an inconsistent one the order
  JavaScript returns is implementation-defined.
\<close>

definition positive :: "int option \<Rightarrow> bool" where
  "positive r = (case r of None \<Rightarrow> False | Some n \<Rightarrow> n > 0)"

fun insertBy :: "('a \<Rightarrow> 'a \<Rightarrow> int option) \<Rightarrow> 'a \<Rightarrow> 'a list \<Rightarrow> 'a list" where
  "insertBy cmp x [] = [x]"
| "insertBy cmp x (y # ys) = (if positive (cmp x y) then y # insertBy cmp x ys else x # y # ys)"

definition sortBy :: "('a \<Rightarrow> 'a \<Rightarrow> int option) \<Rightarrow> 'a list \<Rightarrow> 'a list" where
  "sortBy cmp xs = foldr (insertBy cmp) xs []"

definition compareStart :: "CalendarEvent \<Rightarrow> CalendarEvent \<Rightarrow> int option" where
  "compareStart a b =
     (case start a of None \<Rightarrow> None
      | Some x \<Rightarrow> (case start b of None \<Rightarrow> None | Some y \<Rightarrow> Some (x - y)))"

text \<open>\<open>Array.from(uniqueEvents.values())\<close> after the deduplication loop.\<close>

definition uniqueValues :: "CalendarEvent list \<Rightarrow> CalendarEvent list" where
  "uniqueValues allEvents = map snd (dedupe allEvents [])"

text \<open>
  The list \<open>parseICSData\<close> assigns to \<open>this.events\<close>, for the decoded VEVENTs and the
  date range; \<open>None\<close> when an expansion loop never ends.
\<close>

definition materialize :: "Date \<Rightarrow> Date \<Rightarrow> vevent list \<Rightarrow> CalendarEvent list option" where
  "materialize windowStart windowEnd vevents =
     (case collectEvents windowStart windowEnd vevents [] of
        None \<Rightarrow> None
      | Some allEvents \<Rightarrow> Some (sortBy compareStart (uniqueValues allEvents)))"


text \<open>An event whose start lies in the date range, both ends included.\<close>

definition inWindow :: "Date \<Rightarrow> Date \<Rightarrow> CalendarEvent \<Rightarrow> bool" where
  "inWindow windowStart windowEnd e =
     (date_ge (start e) windowStart \<and> date_le (start e) windowEnd)"

section \<open>The host: Obsidian, the JavaScript runtime, ical.js\<close>

text \<open>
  What a call into the host returns: a value, or an exception.
\<close>

datatype 'a outcome = Throws | Returns 'a

record response =
  resp_status :: int
  resp_text :: string

text \<open>
  The host functions the plugin calls, as parameters: the clock (\<open>new Date()\<close>),
  Obsidian's \<open>requestUrl\<close>, and the decoding of a feed by ical.js (\<open>ICAL.parse\<close>,
  \<open>new ICAL.Component\<close>, \<open>getAllSubcomponents\<close>, \<open>new ICAL.Event\<close>). Every exception
  ical.js raises while a feed is decoded or expanded is caught by the one \<open>try\<close> of
  \<open>parseICSData\<close> before \<open>this.events\<close> is assigned, so they all are the outcome
  \<open>Throws\<close> of \<open>h_ICAL_parse\<close>.
\<close>

record host =
  h_now :: int
  h_requestUrl :: "string \<Rightarrow> response outcome"
  h_ICAL_parse :: "string \<Rightarrow> vevent list outcome"

section \<open>The event store: data.json\<close>

text \<open>An entry of \<open>cachedEvents\<close>: the event with its dates as ISO strings.\<close>

record StoredEvent =
  s_uid :: string
  s_summary :: string
  s_description :: string
  s_location :: string
  s_start :: string
  s_end :: string
  s_attendees :: "string list"

text \<open>
  The persisted object maps property names to values: the settings are strings and
  booleans, \<open>cachedEvents\<close> is an array of stored events.
\<close>

datatype pvalue = PString string | PBool bool | PEvents "StoredEvent list"

type_synonym pdata = "string \<Rightarrow> pvalue option"

text \<open>
  \<open>data.json\<close> as \<open>loadData\<close> finds it: unreadable or not JSON (\<open>loadData\<close> rejects),
  absent (\<open>loadData\<close> resolves to \<open>null\<close>), or holding an object.
\<close>

datatype disk_state = Unreadable | Absent | Stored pdata

definition loadData :: "disk_state \<Rightarrow> pdata option outcome" where
  "loadData d =
     (case d of Unreadable \<Rightarrow> Throws | Absent \<Rightarrow> Returns None | Stored obj \<Rightarrow> Returns (Some obj))"

text \<open>
  The plugin instance with what it reads and writes: its settings and events, the
  persisted file, whether \<open>saveData\<close> succeeds, and the \<open>Notice\<close>s shown to the user so
  far, in order. Console output is not part of the state.
\<close>

record plugin =
  settings :: MeetingNotesSettings
  events :: "CalendarEvent list"
  disk :: disk_state
  writable :: bool
  notices :: "string list"

definition notify :: "string \<Rightarrow> plugin \<Rightarrow> plugin" where
  "notify msg p = p\<lparr>notices := notices p @ [msg]\<rparr>"

text \<open>
  \<open>{...event, start: event.start.toISOString(), end: event.end.toISOString()}\<close>;
  \<open>toISOString\<close> throws a RangeError on an Invalid Date (the result is \<open>None\<close> then).
\<close>

definition storeEvent :: "CalendarEvent \<Rightarrow> StoredEvent option" where
  "storeEvent event =
     (case start event of
        None \<Rightarrow> None
      | Some s \<Rightarrow>
          (case end' event of
             None \<Rightarrow> None
           | Some e \<Rightarrow>
               Some \<lparr> s_uid = uid event, s_summary = summary event,
                      s_description = description event, s_location = location event,
                      s_start = toISOString s, s_end = toISOString e,
                      s_attendees = attendees event \<rparr>))"

fun storeEvents :: "CalendarEvent list \<Rightarrow> StoredEvent list option" where
  "storeEvents [] = Some []"
| "storeEvents (event # rest) =
     (case storeEvent event of
        None \<Rightarrow> None
      | Some se \<Rightarrow> (case storeEvents rest of None \<Rightarrow> None | Some ses \<Rightarrow> Some (se # ses)))"

text \<open>
  \<open>saveEvents\<close>. The body of its \<open>try\<close> throws when \<open>loadData\<close> rejects, when an event
  has an Invalid Date (\<open>toISOString\<close>), and when \<open>saveData\<close> rejects; it writes the
  loaded object (\<open>{}\<close> when there is none) with \<open>cachedEvents\<close> set.
\<close>

definition saveEventsTry :: "plugin \<Rightarrow> plugin outcome" where
  "saveEventsTry p =
     (case loadData (disk p) of
        Throws \<Rightarrow> Throws
      | Returns loaded \<Rightarrow>
          (let obj = (case loaded of None \<Rightarrow> Map.empty | Some obj \<Rightarrow> obj) in
           case storeEvents (events p) of
             None \<Rightarrow> Throws
           | Some ses \<Rightarrow>
               if writable p
               then Returns (p\<lparr>disk := Stored (obj(''cachedEvents'' \<mapsto> PEvents ses))\<rparr>)
               else Throws))"

text \<open>The \<open>catch\<close> logs the error to the console: the method itself never throws.\<close>

definition saveEvents :: "plugin \<Rightarrow> plugin" where
  "saveEvents p = (case saveEventsTry p of Throws \<Rightarrow> p | Returns p' \<Rightarrow> p')"

text \<open>\<open>{...event, start: new Date(event.start), end: new Date(event.end)}\<close>.\<close>

definition restoreEvent :: "StoredEvent \<Rightarrow> CalendarEvent" where
  "restoreEvent se =
     \<lparr> uid = s_uid se, summary = s_summary se, description = s_description se,
       location = s_location se, start = newDateFromString (s_start se),
       end' = newDateFromString (s_end se), attendees = s_attendees se \<rparr>"

text \<open>
  \<open>loadCachedEvents\<close>. The body of its \<open>try\<close> throws when \<open>loadData\<close> rejects and when
  \<open>data.cachedEvents\<close> is truthy and has no \<open>map\<close> method (a non-empty string, \<open>true\<close>);
  the \<open>if\<close> is skipped when there is no data or \<open>data.cachedEvents\<close> is falsy (absent,
  the empty string, \<open>false\<close>). The refresh of the open calendar views is left out.
\<close>

definition loadCachedEventsTry :: "plugin \<Rightarrow> plugin outcome" where
  "loadCachedEventsTry p =
     (case loadData (disk p) of
        Throws \<Rightarrow> Throws
      | Returns None \<Rightarrow> Returns p
      | Returns (Some obj) \<Rightarrow>
          (case obj ''cachedEvents'' of
             None \<Rightarrow> Returns p
           | Some (PString s) \<Rightarrow> if s = [] then Returns p else Throws
           | Some (PBool b) \<Rightarrow> if b then Throws else Returns p
           | Some (PEvents ses) \<Rightarrow> Returns (p\<lparr>events := map restoreEvent ses\<rparr>)))"

text \<open>The \<open>catch\<close> logs the error to the console: the method itself never throws.\<close>

definition loadCachedEvents :: "plugin \<Rightarrow> plugin" where
  "loadCachedEvents p = (case loadCachedEventsTry p of Throws \<Rightarrow> p | Returns p' \<Rightarrow> p')"






section \<open>Fetching and parsing\<close>

text \<open>
  \<open>parseICSData\<close>: \<open>None\<close> when an expansion loop never ends. When decoding throws,
  the \<open>catch\<close> shows a \<open>Notice\<close> and leaves the events and the file as they are. The
  refresh of the open calendar views changes neither the plugin nor the file and is left
  out.
\<close>

definition parseICSData :: "host \<Rightarrow> string \<Rightarrow> plugin \<Rightarrow> plugin option" where
  "parseICSData h icsData p =
     (case h_ICAL_parse h icsData of
        Throws \<Rightarrow> Some (notify ''Error parsing calendar data'' p)
      | Returns vevents \<Rightarrow>
          (case materialize (fourWeeksAgo (h_now h)) (sixWeeksLater (h_now h)) vevents of
             None \<Rightarrow> None
           | Some evs \<Rightarrow> Some (saveEvents (p\<lparr>events := evs\<rparr>))))"

text \<open>
  \<open>fetchCalendarEvents\<close>. \<open>fetchFailed\<close> is its \<open>catch\<close>, reached when \<open>requestUrl\<close>
  throws and when the status is not 200; \<open>parseICSData\<close> catches its own exceptions, so
  nothing it does leads there. The console output is left out.
\<close>

definition fetchFailed :: "bool \<Rightarrow> plugin \<Rightarrow> plugin" where
  "fetchFailed isManual p =
     (if isManual then notify ''Error fetching calendar events. Check console for details.'' p
      else p)"

definition fetchCalendarEvents :: "host \<Rightarrow> bool \<Rightarrow> plugin \<Rightarrow> plugin option" where
  "fetchCalendarEvents h isManual p =
     (if icsUrl (settings p) = []
      then Some (if isManual then notify ''Please configure ICS URL in settings'' p else p)
      else
        (let p1 = (if isManual then notify ''Fetching calendar events...'' p else p) in
         case h_requestUrl h (icsUrl (settings p)) of
           Throws \<Rightarrow> Some (fetchFailed isManual p1)
         | Returns resp \<Rightarrow>
             if resp_status resp \<noteq> 200 then Some (fetchFailed isManual p1)
             else
               (case parseICSData h (resp_text resp) p1 of
                  None \<Rightarrow> None
                | Some p2 \<Rightarrow>
                    Some (if isManual
                          then notify (''Loaded '' @ numberToString (int (length (events p2)))
                                       @ '' calendar events'') p2
                          else p2))))"

section \<open>The day view: getEventsForDate\<close>

text \<open>
  Local time. The time zone of the runtime gives the offset of local time from UTC in
  milliseconds, and the offset changes with daylight saving: \<open>tzaAt z t\<close> is the offset
  in force at the instant \<open>t\<close> (LocalTZA(t, true) in ECMA-262), \<open>tzaOfLocal z t\<close> is
  the offset by which the local time value \<open>t\<close> is read (LocalTZA(t, false)).
\<close>

record timeZone =
  tzaAt :: "int \<Rightarrow> int"
  tzaOfLocal :: "int \<Rightarrow> int"

definition LocalTime :: "timeZone \<Rightarrow> int \<Rightarrow> int" where
  "LocalTime z t = t + tzaAt z t"

definition UTC :: "timeZone \<Rightarrow> int \<Rightarrow> int" where
  "UTC z t = t - tzaOfLocal z t"

text \<open>
  \<open>getHours\<close> and \<open>getMinutes\<close> read the local time (NaN, here \<open>None\<close>, on an Invalid
  Date). \<open>setHours(hh, mm, ss, ms)\<close> keeps the day of the local time, replaces the time
  within the day, and converts back: MakeDate of the local day and MakeTime, then UTC and
  TimeClip.
\<close>

definition getHours :: "timeZone \<Rightarrow> Date \<Rightarrow> int option" where
  "getHours z d =
     (case d of None \<Rightarrow> None | Some t \<Rightarrow> Some ((LocalTime z t div 3600000) mod 24))"

definition getMinutes :: "timeZone \<Rightarrow> Date \<Rightarrow> int option" where
  "getMinutes z d =
     (case d of None \<Rightarrow> None | Some t \<Rightarrow> Some ((LocalTime z t div 60000) mod 60))"

definition setHours :: "timeZone \<Rightarrow> int \<Rightarrow> int \<Rightarrow> int \<Rightarrow> int \<Rightarrow> Date \<Rightarrow> Date" where
  "setHours z hh mm ss ms d =
     (case d of
        None \<Rightarrow> None
      | Some t \<Rightarrow>
          timeClip (UTC z ((LocalTime z t div day_ms) * day_ms
                            + (hh * 3600000 + mm * 60000 + ss * 1000 + ms))))"

definition isAllDayEvent :: "timeZone \<Rightarrow> CalendarEvent \<Rightarrow> bool" where
  "isAllDayEvent z event =
     (getHours z (start event) = Some 0 \<and> getMinutes z (start event) = Some 0 \<and>
      getHours z (end' event) = Some 0 \<and> getMinutes z (end' event) = Some 0)"

text \<open>The expression \<open>matches\<close>: the overlap of an event with the target day.\<close>

definition overlapsDay :: "Date \<Rightarrow> Date \<Rightarrow> Date \<Rightarrow> Date \<Rightarrow> bool" where
  "overlapsDay eventStart eventEnd dayStart dayEnd =
     ((date_ge eventStart dayStart \<and> date_le eventStart dayEnd) \<or>
      (date_ge eventEnd dayStart \<and> date_le eventEnd dayEnd) \<or>
      (date_lt eventStart dayStart \<and> date_gt eventEnd dayEnd))"

text \<open>\<open>eventEnd.setTime(eventEnd.getTime() - 1)\<close>.\<close>

definition minusOneMs :: "Date \<Rightarrow> Date" where
  "minusOneMs d = (case d of None \<Rightarrow> None | Some t \<Rightarrow> timeClip (t - 1))"

text \<open>The callback of \<open>this.plugin.events.filter\<close>.\<close>

definition shownOnDay ::
  "timeZone \<Rightarrow> MeetingNotesSettings \<Rightarrow> Date \<Rightarrow> Date \<Rightarrow> CalendarEvent \<Rightarrow> bool" where
  "shownOnDay z cfg dayStart dayEnd event =
     (let eventStart = start event;
          eventEnd = end' event;
          isAllDay = isAllDayEvent z event
      in if hideAllDayEvents cfg \<and> isAllDay then False
         else overlapsDay eventStart (if isAllDay then minusOneMs eventEnd else eventEnd)
                dayStart dayEnd)"

text \<open>The comparator of \<open>filtered.sort\<close>: all-day events first, then by start time.\<close>

definition compareDisplay :: "timeZone \<Rightarrow> CalendarEvent \<Rightarrow> CalendarEvent \<Rightarrow> int option" where
  "compareDisplay z a b =
     (let aIsAllDay = isAllDayEvent z a; bIsAllDay = isAllDayEvent z b
      in if aIsAllDay \<and> \<not> bIsAllDay then Some (- 1)
         else if \<not> aIsAllDay \<and> bIsAllDay then Some 1
         else compareStart a b)"

text \<open>
  \<open>getEventsForDate\<close>. The \<open>console.log\<close> before the filter calls \<open>toISOString\<close> on
  \<open>dayStart\<close> and on \<open>dayEnd\<close>, which throws a RangeError on an Invalid Date: the method
  throws when the query date is invalid or a bound of its day is out of range.
\<close>

definition getEventsForDate ::
  "timeZone \<Rightarrow> MeetingNotesSettings \<Rightarrow> CalendarEvent list \<Rightarrow> Date \<Rightarrow> CalendarEvent list outcome"
  where
  "getEventsForDate z cfg evs date =
     (let dayStart = setHours z 0 0 0 0 date;
          dayEnd = setHours z 23 59 59 999 date
      in if dayStart = None \<or> dayEnd = None then Throws
         else Returns (sortBy (compareDisplay z) (filter (shownOnDay z cfg dayStart dayEnd) evs)))"

section \<open>Notions used in the statements\<close>

text \<open>
  The events a deduplication pass keeps when the keys in \<open>seen\<close> are taken already: of
  the events with one key, the first.
\<close>

fun firsts :: "string set \<Rightarrow> CalendarEvent list \<Rightarrow> CalendarEvent list" where
  "firsts seen [] = []"
| "firsts seen (x # xs) =
     (if eventKey x \<in> seen then firsts seen xs else x # firsts (insert (eventKey x) seen) xs)"

text \<open>
  \<open>emittedBy s e v ev\<close>: the VEVENT \<open>v\<close> makes \<open>parseICSData\<close> push the event \<open>ev\<close>
  when the date range is \<open>s\<close> to \<open>e\<close>.
\<close>

definition emittedBy :: "Date \<Rightarrow> Date \<Rightarrow> vevent \<Rightarrow> CalendarEvent \<Rightarrow> bool" where
  "emittedBy s e v ev =
     (let atts = extractAttendees (v_attendeeProps v) [] in
      if v_isRecurring v
      then (\<exists>occ. date_ge occ s \<and> date_le occ e \<and> ev = occurrenceEvent v atts occ)
      else (date_ge (v_startDate v) s \<and> date_le (v_startDate v) e \<and> ev = singleEvent v atts))"

text \<open>
  A VEVENT whose decoded times are in order: a single event that does not end before it
  starts, a recurring event whose duration is not negative (and small enough for the end
  of every occurrence in the date range of \<open>today\<close> to be a valid date).
\<close>

definition wellFormedTimes :: "int \<Rightarrow> vevent \<Rightarrow> bool" where
  "wellFormedTimes today v =
     (if v_isRecurring v
      then 0 \<le> v_duration v \<and> today + 42 * day_ms + v_duration v * 1000 \<le> maxTime
      else date_ge (v_endDate v) (v_startDate v))"

text \<open>Two events with the same summary and the same start.\<close>

definition sameSummaryAndStart :: "CalendarEvent \<Rightarrow> CalendarEvent \<Rightarrow> bool" where
  "sameSummaryAndStart e x = (summary x = summary e \<and> start x = start e)"

text \<open>
  The loop is left at call \<open>k\<close> of \<open>expand.next()\<close>: the iterator is exhausted, or the
  candidate lies after the end of the date range.
\<close>

definition stopsAt :: "Date \<Rightarrow> (nat \<Rightarrow> Date option) \<Rightarrow> nat \<Rightarrow> bool" where
  "stopsAt windowEnd rule k = (case rule k of None \<Rightarrow> True | Some occ \<Rightarrow> date_gt occ windowEnd)"



text \<open>
  A rule whose occurrences are valid dates, each related by \<open>R\<close> to the next one: in
  non-decreasing order with \<open>\<le>\<close>, in strictly increasing order with \<open><\<close>.
\<close>

definition orderedBy :: "(int \<Rightarrow> int \<Rightarrow> bool) \<Rightarrow> (nat \<Rightarrow> Date option) \<Rightarrow> bool" where
  "orderedBy R rule =
     (\<forall>k. case rule k of
            None \<Rightarrow> True
          | Some d \<Rightarrow>
              (case d of
                 None \<Rightarrow> False
               | Some t \<Rightarrow>
                   (case rule (Suc k) of
                      None \<Rightarrow> True
                    | Some d' \<Rightarrow> (case d' of None \<Rightarrow> False | Some u \<Rightarrow> R t u))))"


definition strictlyIncreasing :: "(nat \<Rightarrow> Date option) \<Rightarrow> bool" where
  "strictlyIncreasing rule = orderedBy (<) rule"

text \<open>
  A valid date: not the Invalid Date. The time value of a date is within 8.64e15
  milliseconds of the epoch, the range of TimeClip.
\<close>

definition validDate :: "Date \<Rightarrow> bool" where
  "validDate d = (case d of None \<Rightarrow> False | Some t \<Rightarrow> - maxTime \<le> t \<and> t \<le> maxTime)"


text \<open>
  A time zone whose offset is \<open>c\<close> from \<open>a\<close> to \<open>b\<close>, for instants and for local time
  values: no change of offset falls between them.
\<close>

definition fixedOffsetBetween :: "timeZone \<Rightarrow> int \<Rightarrow> int \<Rightarrow> int \<Rightarrow> bool" where
  "fixedOffsetBetween z c a b = (\<forall>t. a \<le> t \<and> t \<le> b \<longrightarrow> tzaAt z t = c \<and> tzaOfLocal z t = c)"

text \<open>The value of the property \<open>k\<close> of the persisted object, if there is one.\<close>

definition persistedField :: "disk_state \<Rightarrow> string \<Rightarrow> pvalue option" where
  "persistedField d k = (case d of Stored obj \<Rightarrow> obj k | _ \<Rightarrow> None)"

section \<open>Example feeds\<close>

text \<open>2025-06-02T00:00:00Z.\<close>

definition exampleToday :: int where
  "exampleToday = 1748822400000"

text \<open>A daily rule with no end, a daily rule with \<open>n\<close> occurrences, and no rule.\<close>

definition dailyRule :: "int \<Rightarrow> nat \<Rightarrow> Date option" where
  "dailyRule first k = Some (Some (first + int k * day_ms))"

definition countedRule :: "int \<Rightarrow> nat \<Rightarrow> nat \<Rightarrow> Date option" where
  "countedRule first n k = (if k < n then Some (Some (first + int k * day_ms)) else None)"

definition noRule :: "nat \<Rightarrow> Date option" where
  "noRule k = None"

text \<open>A one-hour stand-up every day from 2025-05-30T00:00:00Z on.\<close>

definition dailyStandup :: vevent where
  "dailyStandup =
     \<lparr> v_uid = ''standup'', v_summary = Some ''Standup'', v_description = None,
       v_location = Some '''', v_startDate = Some 1748563200000,
       v_endDate = Some 1748566800000, v_duration = 3600, v_isRecurring = True,
       v_next = dailyRule 1748563200000,
       v_attendeeProps = [CnString ''Ada'', CnAbsent, CnArray [''Bob'', ''Cy'']] \<rparr>"

definition standupOn :: "int \<Rightarrow> CalendarEvent" where
  "standupOn t =
     \<lparr> uid = ''standup-'' @ numberToString t, summary = ''Standup'', description = '''',
       location = '''', start = Some t, end' = Some (t + 3600000),
       attendees = [''Ada'', ''Bob'', ''Cy''] \<rparr>"

text \<open>A single event with the given uid, summary, start and end, and what is pushed for it.\<close>

definition single :: "string \<Rightarrow> string \<Rightarrow> int \<Rightarrow> int \<Rightarrow> vevent" where
  "single u title s e =
     \<lparr> v_uid = u, v_summary = Some title, v_description = None, v_location = None,
       v_startDate = Some s, v_endDate = Some e, v_duration = (e - s) div 1000,
       v_isRecurring = False, v_next = noRule, v_attendeeProps = [] \<rparr>"

definition singleOn :: "string \<Rightarrow> string \<Rightarrow> int \<Rightarrow> int \<Rightarrow> CalendarEvent" where
  "singleOn u title s e =
     \<lparr> uid = u, summary = title, description = '''', location = '''', start = Some s,
       end' = Some e, attendees = [] \<rparr>"



text \<open>A rule that returns 2025-06-02T00:00:00Z at every call, and an event with that rule.\<close>

definition stuckRule :: "nat \<Rightarrow> Date option" where
  "stuckRule k = Some (Some 1748822400000)"

definition stuckEvent :: vevent where
  "stuckEvent = dailyStandup \<lparr> v_next := stuckRule \<rparr>"

text \<open>
  A two-hour workshop without a summary, on 2025-06-03 and 2025-06-04, and the event
  pushed for its occurrence at \<open>t\<close>.
\<close>

definition workshop :: vevent where
  "workshop =
     \<lparr> v_uid = ''ws'', v_summary = None, v_description = Some ''Bring a laptop'',
       v_location = Some ''Room 2'', v_startDate = Some 1748908800000,
       v_endDate = Some 1748916000000, v_duration = 7200, v_isRecurring = True,
       v_next = countedRule 1748908800000 2, v_attendeeProps = [] \<rparr>"

definition workshopOn :: "int \<Rightarrow> CalendarEvent" where
  "workshopOn t =
     \<lparr> uid = ''ws-'' @ numberToString t, summary = ''Untitled Event'',
       description = ''Bring a laptop'', location = ''Room 2'', start = Some t,
       end' = Some (t + 7200000), attendees = [] \<rparr>"

text \<open>A host on 2025-06-02 whose feed holds one event.\<close>

definition exampleHost :: host where
  "exampleHost =
     \<lparr> h_now = exampleToday,
       h_requestUrl = (\<lambda>url. Returns \<lparr> resp_status = 200, resp_text = ''BEGIN:VCALENDAR'' \<rparr>),
       h_ICAL_parse = (\<lambda>icsData. Returns [single ''plan-1'' ''Planning'' 1748858400000 1748862000000]) \<rparr>"

text \<open>The same host when the server answers 200 with a page that is no calendar.\<close>

definition brokenFeedHost :: host where
  "brokenFeedHost =
     exampleHost \<lparr> h_requestUrl := (\<lambda>url. Returns \<lparr> resp_status = 200, resp_text = ''<html>'' \<rparr>),
                   h_ICAL_parse := (\<lambda>icsData. Throws) \<rparr>"

text \<open>A plugin with a feed configured, its settings saved, and no events yet.\<close>

definition settingsOnDisk :: pdata where
  "settingsOnDisk =
     [''icsUrl'' \<mapsto> PString ''https://example.org/cal.ics'',
      ''templatePath'' \<mapsto> PString ''Templates/Meeting'',
      ''notesFolder'' \<mapsto> PString ''Notes'',
      ''trimTeamsLinks'' \<mapsto> PBool True,
      ''hideAllDayEvents'' \<mapsto> PBool False]"

definition configuredPlugin :: plugin where
  "configuredPlugin =
     \<lparr> settings = DEFAULT_SETTINGS \<lparr> icsUrl := ''https://example.org/cal.ics'' \<rparr>,
       events = [], disk = Stored settingsOnDisk, writable = True, notices = [] \<rparr>"

text \<open>The example event in memory and in the file.\<close>

definition planning :: CalendarEvent where
  "planning = singleOn ''plan-1'' ''Planning'' 1748858400000 1748862000000"

definition planningStored :: StoredEvent where
  "planningStored =
     \<lparr> s_uid = ''plan-1'', s_summary = ''Planning'', s_description = '''', s_location = '''',
       s_start = ''2025-06-02T10:00:00.000Z'', s_end = ''2025-06-02T11:00:00.000Z'',
       s_attendees = [] \<rparr>"




text \<open>
  An all-day event from 2025-06-10T00:00 to 2025-06-11T00:00 local time, where local time
  is \<open>c\<close> milliseconds ahead of UTC on those days; settings that hide all-day events.
\<close>

definition allDayJune10 :: "int \<Rightarrow> CalendarEvent" where
  "allDayJune10 c =
     \<lparr> uid = ''holiday'', summary = ''Holiday'', description = '''', location = '''',
       start = Some (1749513600000 - c), end' = Some (1749600000000 - c), attendees = [] \<rparr>"

text \<open>
  Helsinki in 2025: two hours ahead of UTC, three hours from 2025-03-30T01:00:00Z to
  2025-10-26T01:00:00Z. The local hour from 03:00 that is skipped in March is read with
  the offset before the change, and so is the hour from 03:00 that comes twice in October.
\<close>

definition helsinki2025 :: timeZone where
  "helsinki2025 =
     \<lparr> tzaAt = (\<lambda>t. if 1743296400000 \<le> t \<and> t < 1761440400000 then 10800000 else 7200000),
       tzaOfLocal = (\<lambda>t. if 1743307200000 \<le> t \<and> t < 1761451200000 then 10800000 else 7200000) \<rparr>"

text \<open>
  An all-day event on the day the clocks change there: from 2025-03-30T00:00 to
  2025-03-31T00:00 local time, 23 hours.
\<close>

definition allDayMarch30 :: CalendarEvent where
  "allDayMarch30 =
     \<lparr> uid = ''cleaning'', summary = ''Spring cleaning'', description = '''', location = '''',
       start = Some 1743285600000, end' = Some 1743368400000, attendees = [] \<rparr>"

definition hidingAllDay :: MeetingNotesSettings where
  "hidingAllDay = DEFAULT_SETTINGS \<lparr> hideAllDayEvents := True \<rparr>"

section \<open>Materialization: what is pushed, kept and sorted\<close>

lemma inWindow_occurrenceEvent:
  "inWindow s e (occurrenceEvent ev atts occ) = (date_ge occ s \<and> date_le occ e)"
  by (simp add: inWindow_def occurrenceEvent_def Let_def)

lemma mset_insertBy: "mset (insertBy cmp x ys) = add_mset x (mset ys)"
  by (induction ys) auto

lemma mset_sortBy: "mset (sortBy cmp xs) = mset xs"
  by (induction xs) (auto simp: sortBy_def mset_insertBy)

lemma set_sortBy: "set (sortBy cmp xs) = set xs"
  using mset_sortBy [of cmp xs] by (metis set_mset_mset)

lemma distinct_map_sortBy: "distinct (map f (sortBy cmp xs)) = distinct (map f xs)"
proof -
  have "mset (map f (sortBy cmp xs)) = mset (map f xs)"
    by (simp add: mset_sortBy)
  then show ?thesis
    by (rule mset_eq_imp_distinct_iff)
qed

lemma filter_sortBy_single:
  assumes "filter P xs = [f]"
  shows "filter P (sortBy cmp xs) = [f]"
proof -
  have "mset (filter P (sortBy cmp xs)) = mset (filter P xs)"
    by (simp add: mset_sortBy)
  with assms have "mset (filter P (sortBy cmp xs)) = {#f#}" by simp
  then show ?thesis by (simp only: mset_single_iff)
qed

lemma dedupe_firsts: "map snd (dedupe xs u) = map snd u @ firsts (set (map fst u)) xs"
  by (induction xs arbitrary: u) auto

lemma uniqueValues_firsts: "uniqueValues xs = firsts {} xs"
  by (simp add: uniqueValues_def dedupe_firsts)

lemma set_firsts: "set (firsts seen xs) \<subseteq> set xs"
  by (induction xs arbitrary: seen) auto

lemma firsts_unseen: "x \<in> set (firsts seen xs) \<Longrightarrow> eventKey x \<notin> seen"
  by (induction xs arbitrary: seen) (auto split: if_splits)

lemma distinct_key_firsts: "distinct (map eventKey (firsts seen xs))"
  by (induction xs arbitrary: seen) (auto dest: firsts_unseen)

lemma distinct_map_firsts: "distinct (map f xs) \<Longrightarrow> distinct (map f (firsts seen xs))"
proof (induction xs arbitrary: seen)
  case Nil
  then show ?case by simp
next
  case (Cons x xs)
  have "f x \<notin> f ` set (firsts seen' xs)" for seen'
    using Cons.prems set_firsts [of seen' xs] by auto
  with Cons show ?case by simp
qed

lemma filter_key_firsts:
  "filter (\<lambda>x. eventKey x = k) (firsts seen xs) =
     (if k \<in> seen then []
      else (case find (\<lambda>x. eventKey x = k) xs of None \<Rightarrow> [] | Some f \<Rightarrow> [f]))"
proof (induction xs arbitrary: seen)
  case Nil
  then show ?case by simp
next
  case (Cons x xs)
  show ?case
  proof (cases "eventKey x \<in> seen")
    case True
    then show ?thesis using Cons.IH [of seen] by auto
  next
    case False
    then show ?thesis using Cons.IH [of "insert (eventKey x) seen"] by auto
  qed
qed


lemma expandLoop_occurrences:
  "expandLoop s e ev atts k acc = Some out \<Longrightarrow>
     \<exists>occs. out = acc @ map (occurrenceEvent ev atts) occs \<and>
            (\<forall>occ \<in> set occs. date_ge occ s \<and> date_le occ e)"
proof (induction s e ev atts k acc out rule: expandLoop.raw_induct [rotated 1, consumes 1])
  case (1 expandLoop' s e ev atts k acc out)
  show ?case
  proof (cases "v_next ev k")
    case None
    with 1(2) show ?thesis by simp
  next
    case (Some occ)
    show ?thesis
    proof (cases "date_gt occ e")
      case True
      with Some 1(2) show ?thesis by simp
    next
      case False
      show ?thesis
      proof (cases "date_ge occ s \<and> date_le occ e")
        case True
        with Some False 1(2)
        have "expandLoop' s e ev atts (Suc k) (acc @ [occurrenceEvent ev atts occ]) = Some out"
          by simp
        from 1(1) [OF this] obtain occs where
          "out = (acc @ [occurrenceEvent ev atts occ]) @ map (occurrenceEvent ev atts) occs"
          "\<forall>occ \<in> set occs. date_ge occ s \<and> date_le occ e"
          by blast
        with True show ?thesis
          by (intro exI [of _ "occ # occs"]) simp
      next
        case no: False
        with Some False 1(2)
        have "expandLoop' s e ev atts (Suc k) acc = Some out"
          by auto
        from 1(1) [OF this] show ?thesis .
      qed
    qed
  qed
qed

lemma addEvent_provenance:
  assumes "addEvent s e v acc = Some out"
  shows "\<exists>new. out = acc @ new \<and> (\<forall>ev \<in> set new. emittedBy s e v ev)"
proof (cases "v_isRecurring v")
  case True
  with assms have "expandLoop s e v (extractAttendees (v_attendeeProps v) []) 0 acc = Some out"
    by (simp add: addEvent_def Let_def)
  from expandLoop_occurrences [OF this] True show ?thesis
    by (fastforce simp: emittedBy_def Let_def)
next
  case False
  with assms show ?thesis
    by (auto simp: addEvent_def emittedBy_def Let_def split: if_splits)
qed

lemma collectEvents_provenance:
  "collectEvents s e vs acc = Some out \<Longrightarrow>
     \<exists>new. out = acc @ new \<and> (\<forall>ev \<in> set new. \<exists>v \<in> set vs. emittedBy s e v ev)"
proof (induction vs arbitrary: acc)
  case Nil
  then show ?case by simp
next
  case (Cons v vs)
  from Cons.prems obtain mid where mid: "addEvent s e v acc = Some mid"
    and rest: "collectEvents s e vs mid = Some out"
    by (auto split: option.splits)
  from addEvent_provenance [OF mid] obtain n1 where
    n1: "mid = acc @ n1" "\<forall>ev \<in> set n1. emittedBy s e v ev"
    by blast
  from Cons.IH [OF rest] obtain n2 where
    n2: "out = mid @ n2" "\<forall>ev \<in> set n2. \<exists>v \<in> set vs. emittedBy s e v ev"
    by blast
  from n1 n2 show ?case
    by (intro exI [of _ "n1 @ n2"]) auto
qed

lemma emittedBy_inWindow: "emittedBy s e v ev \<Longrightarrow> inWindow s e ev"
  by (auto simp: emittedBy_def inWindow_def occurrenceEvent_def singleEvent_def Let_def
      split: if_splits)

lemma materialize_events:
  assumes "collectEvents s e vs [] = Some allEvents"
  shows "materialize s e vs = Some (sortBy compareStart (uniqueValues allEvents))"
  using assms by (simp add: materialize_def uniqueValues_def)

lemma materialize_subset:
  assumes "collectEvents s e vs [] = Some allEvents" and "materialize s e vs = Some evs"
  shows "set evs \<subseteq> set allEvents"
proof -
  from assms have "evs = sortBy compareStart (firsts {} allEvents)"
    by (simp add: materialize_events uniqueValues_firsts)
  then show ?thesis
    using set_firsts [of "{}" allEvents] by (simp add: set_sortBy)
qed

lemma materialize_provenance:
  assumes "materialize s e vs = Some evs" and "ev \<in> set evs"
  shows "\<exists>v \<in> set vs. emittedBy s e v ev"
proof -
  from assms(1) obtain allEvents where all: "collectEvents s e vs [] = Some allEvents"
    by (auto simp: materialize_def split: option.splits)
  from materialize_subset [OF all assms(1)] assms(2) have "ev \<in> set allEvents" by blast
  with collectEvents_provenance [OF all] show ?thesis by auto
qed

section \<open>C1: recurrence expansion stays inside the date range\<close>

lemma dailyStandup_june:
  "addEvent (Some 1748736000000) (Some 1748908800000) dailyStandup [] =
     Some [standupOn 1748736000000, standupOn 1748822400000, standupOn 1748908800000]"
  by (simp add: addEvent_def expandLoop.simps dailyStandup_def dailyRule_def day_ms_def
      date_gt_def date_ge_def date_le_def occurrenceEvent_def standupOn_def orElse_def
      timeClip_def maxTime_def timeToString_def Let_def)

lemma dailyStandup_materialized:
  "materialize (Some 1748736000000) (Some 1748908800000) [dailyStandup] =
     Some [standupOn 1748736000000, standupOn 1748822400000, standupOn 1748908800000]"
  by (simp add: materialize_def dailyStandup_june uniqueValues_def eventKey_def sortBy_def
      compareStart_def positive_def standupOn_def timeToString_def numberToString_def
      natToString.simps digitChar_def)

text \<open>
  Claim C1. For a recurring VEVENT and any date range, \<open>parseICSData\<close> appends to
  \<open>allEvents\<close> only occurrences whose start is a valid date \<open>t\<close> with
  \<open>windowStart \<le> t \<le> windowEnd\<close>: whenever the expansion of the event returns, what it
  has pushed lies inside the range, and what was in \<open>allEvents\<close> before is kept as it
  was. And the list \<open>parseICSData\<close> makes of any feed for that range holds no event
  whose start lies outside of it.
\<close>

theorem expansion_within_window:
  assumes "v_isRecurring event"
    and "addEvent windowStart windowEnd event allEvents = Some out"
  shows "(\<exists>new. out = allEvents @ new \<and>
            (\<forall>ev \<in> set new. \<exists>t s e. windowStart = Some s \<and> windowEnd = Some e \<and>
                                   start ev = Some t \<and> s \<le> t \<and> t \<le> e)) \<and>
         (\<forall>vevents evs. materialize windowStart windowEnd vevents = Some evs \<longrightarrow>
            (\<forall>ev \<in> set evs. \<exists>t s e. windowStart = Some s \<and> windowEnd = Some e \<and>
                                   start ev = Some t \<and> s \<le> t \<and> t \<le> e))"
proof -
  have bounds: "\<exists>t s e. windowStart = Some s \<and> windowEnd = Some e \<and> start ev = Some t \<and> s \<le> t \<and> t \<le> e"
    if "emittedBy windowStart windowEnd v ev" for v ev
  proof -
    from that have "inWindow windowStart windowEnd ev"
      by (rule emittedBy_inWindow)
    then show ?thesis
      by (auto simp: inWindow_def date_ge_def date_le_def split: option.splits)
  qed
  from addEvent_provenance [OF assms(2)] obtain new where
    new: "out = allEvents @ new" "\<forall>ev \<in> set new. emittedBy windowStart windowEnd event ev"
    by blast
  from new(2) have "\<forall>ev \<in> set new. \<exists>t s e. windowStart = Some s \<and> windowEnd = Some e \<and>
      start ev = Some t \<and> s \<le> t \<and> t \<le> e"
    by (blast intro: bounds)
  with new(1) have pushed: "\<exists>new. out = allEvents @ new \<and>
            (\<forall>ev \<in> set new. \<exists>t s e. windowStart = Some s \<and> windowEnd = Some e \<and>
                                   start ev = Some t \<and> s \<le> t \<and> t \<le> e)"
    by blast
  have kept: "\<exists>t s e. windowStart = Some s \<and> windowEnd = Some e \<and> start ev = Some t \<and> s \<le> t \<and> t \<le> e"
    if "materialize windowStart windowEnd vevents = Some evs" and "ev \<in> set evs"
    for vevents evs ev
    using materialize_provenance [OF that] by (blast intro: bounds)
  from pushed kept show ?thesis by blast
qed

text \<open>
  The daily stand-up from 2025-05-30 on, expanded for the range 2025-06-01 to
  2025-06-03: three occurrences, the one of 2025-06-02 inside the range; they are the
  list made of a feed that holds this event alone.
\<close>

theorem expansion_within_window_witness:
  "v_isRecurring dailyStandup \<and>
   addEvent (Some 1748736000000) (Some 1748908800000) dailyStandup [] =
     Some [standupOn 1748736000000, standupOn 1748822400000, standupOn 1748908800000] \<and>
   materialize (Some 1748736000000) (Some 1748908800000) [dailyStandup] =
     Some [standupOn 1748736000000, standupOn 1748822400000, standupOn 1748908800000] \<and>
   (\<exists>t. start (standupOn 1748822400000) = Some t \<and> 1748736000000 \<le> t \<and> t \<le> 1748908800000)"
proof -
  have rec: "v_isRecurring dailyStandup"
    by (simp add: dailyStandup_def)
  from expansion_within_window [OF rec dailyStandup_june] dailyStandup_materialized
  have "\<exists>t. start (standupOn 1748822400000) = Some t \<and> 1748736000000 \<le> t \<and> t \<le> 1748908800000"
    by auto
  with rec dailyStandup_june dailyStandup_materialized show ?thesis by blast
qed

section \<open>C2: the expansion loop ends\<close>




lemma orderedBy_step:
  assumes "orderedBy R rule" and "rule k = Some d"
  shows "\<exists>t. d = Some t \<and> (\<forall>d'. rule (Suc k) = Some d' \<longrightarrow> (\<exists>u. d' = Some u \<and> R t u))"
proof -
  from assms(1) have
    "case rule k of None \<Rightarrow> True
     | Some d \<Rightarrow> (case d of None \<Rightarrow> False
         | Some t \<Rightarrow> (case rule (Suc k) of None \<Rightarrow> True
             | Some d' \<Rightarrow> (case d' of None \<Rightarrow> False | Some u \<Rightarrow> R t u)))"
    unfolding orderedBy_def by blast
  with assms(2) show ?thesis
    by (auto split: option.splits)
qed

lemma orderedBy_lower:
  assumes "orderedBy (<) rule" and "rule 0 = Some (Some t0)" and "\<forall>k \<le> n. rule k \<noteq> None"
  shows "\<exists>t. rule n = Some (Some t) \<and> t0 + int n \<le> t"
  using assms(3)
proof (induction n)
  case 0
  with assms(2) show ?case by simp
next
  case (Suc n)
  then obtain t where t: "rule n = Some (Some t)" "t0 + int n \<le> t" by auto
  from Suc.prems obtain d where d: "rule (Suc n) = Some d" by auto
  from orderedBy_step [OF assms(1) t(1)] d obtain u where "d = Some u" "t < u"
    by auto
  with t d show ?case by auto
qed

text \<open>
  Rules on which the loop is left: a rule that is exhausted at some call, a rule whose
  dates pass every date, and so every rule in strictly increasing order.
\<close>

lemma exhausted_rule_stops: "rule n = None \<Longrightarrow> \<exists>n. stopsAt windowEnd rule n"
  by (rule exI [of _ n]) (simp add: stopsAt_def)

lemma unbounded_rule_stops:
  assumes "\<forall>T. \<exists>n t. rule n = Some (Some t) \<and> T < t"
  shows "\<exists>n. stopsAt (Some e) rule n"
proof -
  from assms obtain n t where "rule n = Some (Some t)" "e < t" by blast
  then have "stopsAt (Some e) rule n" by (simp add: stopsAt_def date_gt_def)
  then show ?thesis ..
qed

lemma strictlyIncreasing_stops:
  assumes "strictlyIncreasing rule"
  shows "\<exists>n. stopsAt (Some e) rule n"
proof (rule ccontr)
  assume "\<not> (\<exists>n. stopsAt (Some e) rule n)"
  then have never: "\<And>n. \<not> stopsAt (Some e) rule n" by blast
  have some: "rule n \<noteq> None" for n
    using never [of n] by (auto simp: stopsAt_def split: option.splits)
  from assms have ord: "orderedBy (<) rule" by (simp add: strictlyIncreasing_def)
  from some [of 0] obtain d0 where d0: "rule 0 = Some d0" by auto
  from orderedBy_step [OF ord d0] d0 obtain t0 where t0: "rule 0 = Some (Some t0)"
    by auto
  define n where "n = nat (e - t0) + 1"
  from orderedBy_lower [OF ord t0, of n] some obtain t where
    t: "rule n = Some (Some t)" "t0 + int n \<le> t" by auto
  from t(2) have "e < t" by (auto simp: n_def split: if_splits)
  with t(1) have "stopsAt (Some e) rule n"
    by (simp add: stopsAt_def date_gt_def)
  with never show False by blast
qed








text \<open>
  The hypothesis on the iterator is needed in this model, where the iterator is any
  function: on one that returns the same date inside the range at every call the loop
  never ends. No recurrence rule has such an expansion.
\<close>

lemma stuck_loop:
  "expandLoop ws we ev atts k acc = Some out \<Longrightarrow>
     ws = Some 1748736000000 \<Longrightarrow> we = Some 1748908800000 \<Longrightarrow> v_next ev = stuckRule \<Longrightarrow> False"
proof (induction ws we ev atts k acc out rule: expandLoop.raw_induct [rotated 1, consumes 1])
  case (1 expandLoop' ws we ev atts k acc out)
  from 1(2-5) have
    "expandLoop' ws we ev atts (Suc k) (acc @ [occurrenceEvent ev atts (Some 1748822400000)]) = Some out"
    by (simp add: stuckRule_def date_gt_def date_ge_def date_le_def)
  from 1(1) [OF this 1(3-5)] show ?case .
qed

lemma stuck_rule_never_stops:
  "expandLoop (Some 1748736000000) (Some 1748908800000) stuckEvent [] 0 [] = None"
proof (cases "expandLoop (Some 1748736000000) (Some 1748908800000) stuckEvent [] 0 []")
  case None
  then show ?thesis .
next
  case (Some out)
  from stuck_loop [OF this] show ?thesis by (simp add: stuckEvent_def)
qed

section \<open>Materialized example feeds\<close>

lemmas example_defs =
  materialize_def addEvent_def single_def singleOn_def singleEvent_def uniqueValues_def
  eventKey_def sortBy_def compareStart_def positive_def orElse_def fourWeeksAgo_def
  sixWeeksLater_def timeClip_def maxTime_def exampleToday_def day_ms_def date_ge_def
  date_le_def date_gt_def date_lt_def timeToString_def Let_def noRule_def

lemma materialize_single:
  "exampleToday - 28 * day_ms \<le> s \<Longrightarrow> s \<le> exampleToday + 42 * day_ms \<Longrightarrow> t \<noteq> [] \<Longrightarrow>
   materialize (fourWeeksAgo exampleToday) (sixWeeksLater exampleToday) [single u t s e] =
     Some [singleOn u t s e]"
  by (simp add: example_defs)

lemma collect_two_singles:
  "exampleToday - 28 * day_ms \<le> s1 \<Longrightarrow> s1 \<le> exampleToday + 42 * day_ms \<Longrightarrow>
   exampleToday - 28 * day_ms \<le> s2 \<Longrightarrow> s2 \<le> exampleToday + 42 * day_ms \<Longrightarrow>
   t1 \<noteq> [] \<Longrightarrow> t2 \<noteq> [] \<Longrightarrow>
   collectEvents (fourWeeksAgo exampleToday) (sixWeeksLater exampleToday)
     [single u1 t1 s1 e1, single u2 t2 s2 e2] [] = Some [singleOn u1 t1 s1 e1, singleOn u2 t2 s2 e2]"
  by (simp add: example_defs)

lemma materialize_two_singles:
  "s1 \<le> s2 \<Longrightarrow> exampleToday - 28 * day_ms \<le> s1 \<Longrightarrow> s2 \<le> exampleToday + 42 * day_ms \<Longrightarrow>
   t1 @ ''-'' @ numberToString s1 \<noteq> t2 @ ''-'' @ numberToString s2 \<Longrightarrow> t1 \<noteq> [] \<Longrightarrow> t2 \<noteq> [] \<Longrightarrow>
   materialize (fourWeeksAgo exampleToday) (sixWeeksLater exampleToday)
     [single u1 t1 s1 e1, single u2 t2 s2 e2] = Some [singleOn u1 t1 s1 e1, singleOn u2 t2 s2 e2]"
  by (simp add: example_defs)

lemma materialize_duplicate_singles:
  "exampleToday - 28 * day_ms \<le> s \<Longrightarrow> s \<le> exampleToday + 42 * day_ms \<Longrightarrow> t \<noteq> [] \<Longrightarrow>
   materialize (fourWeeksAgo exampleToday) (sixWeeksLater exampleToday)
     [single u1 t s e1, single u2 t s e2] = Some [singleOn u1 t s e1]"
  by (simp add: example_defs)

lemma materialize_workshop:
  "materialize (fourWeeksAgo exampleToday) (sixWeeksLater exampleToday) [workshop] =
     Some [workshopOn 1748908800000, workshopOn 1748995200000]"
  by (simp add: example_defs workshop_def workshopOn_def countedRule_def expandLoop.simps
      occurrenceEvent_def numberToString_def natToString.simps digitChar_def)

section \<open>C3: what is unique in the canonical list\<close>

text \<open>
  Claim C3, as amended. In the list \<open>parseICSData\<close> produces, the deduplication key (the
  string made of summary and start) is unique. The uid is not what deduplication looks
  at: it is unique in the list whenever it is among the events pushed before
  deduplication, since deduplication only drops events. A recurring occurrence carries
  the uid \<open>baseUid-occurrenceEpochMillis\<close>, a single event the uid of the feed unchanged.
\<close>

theorem canonical_uids:
  assumes "collectEvents windowStart windowEnd vevents [] = Some allEvents"
    and "materialize windowStart windowEnd vevents = Some evs"
  shows "distinct (map eventKey evs) \<and>
         (distinct (map uid allEvents) \<longrightarrow> distinct (map uid evs)) \<and>
         (\<forall>ev \<in> set evs. \<exists>v \<in> set vevents.
            if v_isRecurring v
            then \<exists>t. start ev = Some t \<and> uid ev = v_uid v @ ''-'' @ numberToString t
            else uid ev = v_uid v)"
proof -
  from assms have evs: "evs = sortBy compareStart (firsts {} allEvents)"
    by (simp add: materialize_events uniqueValues_firsts)
  have keys: "distinct (map eventKey evs)"
    by (simp add: evs distinct_map_sortBy distinct_key_firsts)
  have uids: "distinct (map uid evs)" if "distinct (map uid allEvents)"
    using that by (simp add: evs distinct_map_sortBy distinct_map_firsts)
  have origin: "\<exists>v \<in> set vevents.
            if v_isRecurring v
            then \<exists>t. start ev = Some t \<and> uid ev = v_uid v @ ''-'' @ numberToString t
            else uid ev = v_uid v" if "ev \<in> set evs" for ev
  proof -
    from materialize_provenance [OF assms(2) that] obtain v where
      v: "v \<in> set vevents" "emittedBy windowStart windowEnd v ev" by blast
    have "if v_isRecurring v
          then \<exists>t. start ev = Some t \<and> uid ev = v_uid v @ ''-'' @ numberToString t
          else uid ev = v_uid v"
    proof (cases "v_isRecurring v")
      case True
      with v(2) obtain occ where occ: "date_ge occ windowStart"
        "ev = occurrenceEvent v (extractAttendees (v_attendeeProps v) []) occ"
        by (auto simp: emittedBy_def Let_def)
      from occ(1) obtain t where "occ = Some t"
        by (auto simp: date_ge_def split: option.splits)
      with occ(2) True show ?thesis
        by (simp add: occurrenceEvent_def Let_def timeToString_def)
    next
      case False
      with v(2) show ?thesis
        by (auto simp: emittedBy_def Let_def singleEvent_def)
    qed
    with v(1) show ?thesis by blast
  qed
  from keys uids origin show ?thesis by blast
qed

theorem canonical_uids_witness:
  "collectEvents (fourWeeksAgo exampleToday) (sixWeeksLater exampleToday)
     [single ''plan-1'' ''Planning'' 1748858400000 1748862000000,
      single ''retro-1'' ''Retro'' 1748872800000 1748876400000] [] =
     Some [singleOn ''plan-1'' ''Planning'' 1748858400000 1748862000000,
           singleOn ''retro-1'' ''Retro'' 1748872800000 1748876400000] \<and>
   materialize (fourWeeksAgo exampleToday) (sixWeeksLater exampleToday)
     [single ''plan-1'' ''Planning'' 1748858400000 1748862000000,
      single ''retro-1'' ''Retro'' 1748872800000 1748876400000] =
     Some [singleOn ''plan-1'' ''Planning'' 1748858400000 1748862000000,
           singleOn ''retro-1'' ''Retro'' 1748872800000 1748876400000] \<and>
   distinct (map uid [singleOn ''plan-1'' ''Planning'' 1748858400000 1748862000000,
                      singleOn ''retro-1'' ''Retro'' 1748872800000 1748876400000]) \<and>
   distinct (map eventKey [singleOn ''plan-1'' ''Planning'' 1748858400000 1748862000000,
                           singleOn ''retro-1'' ''Retro'' 1748872800000 1748876400000])"
proof -
  have c: "collectEvents (fourWeeksAgo exampleToday) (sixWeeksLater exampleToday)
     [single ''plan-1'' ''Planning'' 1748858400000 1748862000000,
      single ''retro-1'' ''Retro'' 1748872800000 1748876400000] [] =
     Some [singleOn ''plan-1'' ''Planning'' 1748858400000 1748862000000,
           singleOn ''retro-1'' ''Retro'' 1748872800000 1748876400000]"
    by (rule collect_two_singles) (simp_all add: exampleToday_def day_ms_def)
  have m: "materialize (fourWeeksAgo exampleToday) (sixWeeksLater exampleToday)
     [single ''plan-1'' ''Planning'' 1748858400000 1748862000000,
      single ''retro-1'' ''Retro'' 1748872800000 1748876400000] =
     Some [singleOn ''plan-1'' ''Planning'' 1748858400000 1748862000000,
           singleOn ''retro-1'' ''Retro'' 1748872800000 1748876400000]"
    by (rule materialize_two_singles) (simp_all add: exampleToday_def day_ms_def)
  have u: "distinct (map uid [singleOn ''plan-1'' ''Planning'' 1748858400000 1748862000000,
                      singleOn ''retro-1'' ''Retro'' 1748872800000 1748876400000])"
    by (simp add: singleOn_def)
  from canonical_uids [OF c m] u c m show ?thesis by blast
qed

text \<open>
  Two single VEVENTs of one feed with the same UID and different summaries (a meeting and
  its moved instance) are both kept, with the same uid.
\<close>

theorem same_uid_twice:
  "materialize (fourWeeksAgo exampleToday) (sixWeeksLater exampleToday)
     [single ''rev-1'' ''Review'' 1748858400000 1748862000000,
      single ''rev-1'' ''Review (moved)'' 1748872800000 1748876400000] =
     Some [singleOn ''rev-1'' ''Review'' 1748858400000 1748862000000,
           singleOn ''rev-1'' ''Review (moved)'' 1748872800000 1748876400000] \<and>
   \<not> distinct (map uid [singleOn ''rev-1'' ''Review'' 1748858400000 1748862000000,
                        singleOn ''rev-1'' ''Review (moved)'' 1748872800000 1748876400000])"
proof -
  have "materialize (fourWeeksAgo exampleToday) (sixWeeksLater exampleToday)
     [single ''rev-1'' ''Review'' 1748858400000 1748862000000,
      single ''rev-1'' ''Review (moved)'' 1748872800000 1748876400000] =
     Some [singleOn ''rev-1'' ''Review'' 1748858400000 1748862000000,
           singleOn ''rev-1'' ''Review (moved)'' 1748872800000 1748876400000]"
    by (rule materialize_two_singles) (simp_all add: exampleToday_def day_ms_def)
  then show ?thesis by (simp add: singleOn_def)
qed

section \<open>C4: end and start of a materialized event\<close>

text \<open>
  Claim C4, as amended. \<open>parseICSData\<close> has no check of its own on the order of start
  and end: a single event keeps the start and end the feed gives, and an occurrence ends
  at its start plus the decoded duration. So every event of the materialized list has
  \<open>end \<ge> start\<close> whenever the decoded VEVENTs have their times in order: each single
  VEVENT ends at or after its start, each recurring VEVENT has a duration that is not
  negative.
\<close>

theorem end_not_before_start:
  assumes "materialize (fourWeeksAgo today) (sixWeeksLater today) vevents = Some evs"
    and "\<forall>v \<in> set vevents. wellFormedTimes today v"
    and "ev \<in> set evs"
  shows "date_ge (end' ev) (start ev)"
proof -
  from materialize_provenance [OF assms(1,3)] obtain v where
    v: "v \<in> set vevents" "emittedBy (fourWeeksAgo today) (sixWeeksLater today) v ev"
    by blast
  from assms(2) v(1) have wf: "wellFormedTimes today v" by blast
  show ?thesis
  proof (cases "v_isRecurring v")
    case True
    with v(2) obtain occ where occ: "date_ge occ (fourWeeksAgo today)"
      "date_le occ (sixWeeksLater today)"
      "ev = occurrenceEvent v (extractAttendees (v_attendeeProps v) []) occ"
      by (auto simp: emittedBy_def Let_def)
    from occ(1,2) obtain t where t: "occ = Some t" "- maxTime \<le> today - 28 * day_ms"
      "today - 28 * day_ms \<le> t" "t \<le> today + 42 * day_ms"
      by (auto simp: date_ge_def date_le_def fourWeeksAgo_def sixWeeksLater_def timeClip_def
          split: option.splits if_splits)
    from wf True have dur: "0 \<le> v_duration v"
      "today + 42 * day_ms + v_duration v * 1000 \<le> maxTime"
      by (auto simp: wellFormedTimes_def)
    from t dur have "end' ev = Some (t + v_duration v * 1000)"
      by (simp add: occ(3) occurrenceEvent_def Let_def timeClip_def)
    moreover have "start ev = Some t"
      by (simp add: occ(3) t(1) occurrenceEvent_def Let_def)
    ultimately show ?thesis using dur(1) by (simp add: date_ge_def)
  next
    case False
    with v(2) have "ev = singleEvent v (extractAttendees (v_attendeeProps v) [])"
      by (auto simp: emittedBy_def Let_def)
    moreover from wf False have "date_ge (v_endDate v) (v_startDate v)"
      by (simp add: wellFormedTimes_def)
    ultimately show ?thesis by (simp add: singleEvent_def)
  qed
qed


theorem end_not_before_start_witness:
  "wellFormedTimes exampleToday workshop \<and>
   materialize (fourWeeksAgo exampleToday) (sixWeeksLater exampleToday) [workshop] =
     Some [workshopOn 1748908800000, workshopOn 1748995200000] \<and>
   date_ge (end' (workshopOn 1748995200000)) (start (workshopOn 1748995200000))"
proof -
  have wf: "wellFormedTimes exampleToday workshop"
    by (simp add: wellFormedTimes_def workshop_def exampleToday_def day_ms_def maxTime_def)
  then have all: "\<forall>v \<in> set [workshop]. wellFormedTimes exampleToday v" by simp
  from end_not_before_start [OF materialize_workshop all, of "workshopOn 1748995200000"]
  have "date_ge (end' (workshopOn 1748995200000)) (start (workshopOn 1748995200000))" by simp
  with wf materialize_workshop show ?thesis by blast
qed

text \<open>
  A single VEVENT that ends an hour before it starts is materialized as it is.
\<close>

theorem end_before_start_materialized:
  "materialize (fourWeeksAgo exampleToday) (sixWeeksLater exampleToday)
     [single ''b-1'' ''Backwards'' 1748858400000 1748854800000] =
     Some [singleOn ''b-1'' ''Backwards'' 1748858400000 1748854800000] \<and>
   date_lt (end' (singleOn ''b-1'' ''Backwards'' 1748858400000 1748854800000))
           (start (singleOn ''b-1'' ''Backwards'' 1748858400000 1748854800000))"
proof -
  have "materialize (fourWeeksAgo exampleToday) (sixWeeksLater exampleToday)
     [single ''b-1'' ''Backwards'' 1748858400000 1748854800000] =
     Some [singleOn ''b-1'' ''Backwards'' 1748858400000 1748854800000]"
    by (rule materialize_single) (simp_all add: exampleToday_def day_ms_def)
  then show ?thesis by (simp add: singleOn_def date_lt_def)
qed

section \<open>C6: deduplication by summary and start\<close>

text \<open>
  The key \<open>summary-startMillis\<close> determines summary and start when the start times are
  not negative: the digits after the last \<open>-\<close> are the start.
\<close>

lemma digit_cases: "d < (10::nat) \<Longrightarrow> d \<in> {0, 1, 2, 3, 4, 5, 6, 7, 8, 9}"
  by auto

lemma digitChar_inj: "a < 10 \<Longrightarrow> b < 10 \<Longrightarrow> digitChar a = digitChar b \<Longrightarrow> a = b"
  using digit_cases [of a] digit_cases [of b] by (auto simp: digitChar_def)

lemma digitChar_not_minus: "a < 10 \<Longrightarrow> digitChar a \<noteq> CHR ''-''"
  using digit_cases [of a] by (auto simp: digitChar_def)

lemma natToString_nonempty: "natToString n \<noteq> []"
  by (subst natToString.simps) simp

lemma natToString_no_minus: "CHR ''-'' \<notin> set (natToString n)"
proof (induction n rule: natToString.induct)
  case (1 n)
  show ?case
  proof (cases "n < 10")
    case True
    then show ?thesis
      using digitChar_not_minus [of n] by (subst natToString.simps) auto
  next
    case False
    have "n mod 10 < 10" by simp
    with False 1 show ?thesis
      using digitChar_not_minus [of "n mod 10"] by (subst natToString.simps) auto
  qed
qed

lemma natToString_inj: "natToString n = natToString m \<Longrightarrow> n = m"
proof (induction n arbitrary: m rule: natToString.induct)
  case (1 n)
  show ?case
  proof (cases "n < 10")
    case n: True
    show ?thesis
    proof (cases "m < 10")
      case True
      with n 1(2) show ?thesis
        by (simp add: natToString.simps [of n] natToString.simps [of m] digitChar_inj)
    next
      case False
      with n 1(2) natToString_nonempty [of "m div 10"] show ?thesis
        by (simp add: natToString.simps [of n] natToString.simps [of m])
    qed
  next
    case n: False
    show ?thesis
    proof (cases "m < 10")
      case True
      with n 1(2) natToString_nonempty [of "n div 10"] show ?thesis
        by (simp add: natToString.simps [of n] natToString.simps [of m])
    next
      case False
      with n 1(2) have eq: "natToString (n div 10) = natToString (m div 10)"
        "digitChar (n mod 10) = digitChar (m mod 10)"
        by (simp_all add: natToString.simps [of n] natToString.simps [of m])
      from 1(1) [OF n eq(1)] have "n div 10 = m div 10" .
      moreover from eq(2) have "n mod 10 = m mod 10"
        by (intro digitChar_inj) simp_all
      ultimately show ?thesis
        by (metis div_mult_mod_eq)
    qed
  qed
qed

lemma split_at_last_minus:
  assumes "CHR ''-'' \<notin> set ds" and "CHR ''-'' \<notin> set es"
    and "xs @ ''-'' @ ds = ys @ ''-'' @ es"
  shows "xs = ys \<and> ds = es"
  using assms
  by (auto simp: append_eq_append_conv2 append_eq_Cons_conv Cons_eq_append_conv)

lemma eventKey_inj:
  assumes "start x = Some t" "0 \<le> t" "start y = Some u" "0 \<le> u"
    and "eventKey x = eventKey y"
  shows "summary x = summary y \<and> start x = start y"
proof -
  from assms have eq: "summary x @ ''-'' @ natToString (nat t) = summary y @ ''-'' @ natToString (nat u)"
    by (simp add: eventKey_def timeToString_def numberToString_def)
  from split_at_last_minus [OF natToString_no_minus natToString_no_minus eq]
  have "summary x = summary y" "natToString (nat t) = natToString (nat u)" by simp_all
  with natToString_inj [of "nat t" "nat u"] assms(1-4) show ?thesis by simp
qed

text \<open>
  Claim C6. Of the events pushed by \<open>parseICSData\<close> (the decoded events and occurrences
  inside the date range) that share the summary and the start of an event \<open>e\<close>, the
  canonical list holds exactly one, the first in feed order; the uid plays no part. The
  date range starts at or after the epoch (the clock is past January 1970), so that every
  start time is a non-negative number of milliseconds.
\<close>

theorem dedup_first_seen_wins:
  assumes "collectEvents windowStart windowEnd vevents [] = Some allEvents"
    and "materialize windowStart windowEnd vevents = Some evs"
    and "e \<in> set allEvents"
    and "windowStart = Some s" and "0 \<le> s"
  shows "\<exists>f. find (sameSummaryAndStart e) allEvents = Some f \<and>
             filter (sameSummaryAndStart e) evs = [f]"
proof -
  have valid: "\<exists>t. start x = Some t \<and> 0 \<le> t" if "x \<in> set allEvents" for x
  proof -
    from collectEvents_provenance [OF assms(1)] that obtain v where
      "emittedBy windowStart windowEnd v x" by auto
    then have "inWindow windowStart windowEnd x" by (rule emittedBy_inWindow)
    with assms(4,5) show ?thesis
      by (auto simp: inWindow_def date_ge_def split: option.splits)
  qed
  have key: "(eventKey x = eventKey e) = sameSummaryAndStart e x" if "x \<in> set allEvents" for x
  proof
    assume k: "eventKey x = eventKey e"
    from valid [OF that] valid [OF assms(3)] obtain t u where
      "start x = Some t" "0 \<le> t" "start e = Some u" "0 \<le> u" by blast
    from eventKey_inj [OF this k] show "sameSummaryAndStart e x"
      by (simp add: sameSummaryAndStart_def)
  next
    assume "sameSummaryAndStart e x"
    then show "eventKey x = eventKey e"
      by (simp add: sameSummaryAndStart_def eventKey_def)
  qed
  from assms(1,2) have evs: "evs = sortBy compareStart (firsts {} allEvents)"
    by (simp add: materialize_events uniqueValues_firsts)
  have sub: "set (firsts {} allEvents) \<subseteq> set allEvents" by (rule set_firsts)
  from assms(3) obtain f where f: "find (\<lambda>x. eventKey x = eventKey e) allEvents = Some f"
    by (cases "find (\<lambda>x. eventKey x = eventKey e) allEvents") (auto simp: find_None_iff)
  have "find (sameSummaryAndStart e) allEvents = find (\<lambda>x. eventKey x = eventKey e) allEvents"
    by (rule find_cong) (simp_all add: key)
  with f have first: "find (sameSummaryAndStart e) allEvents = Some f" by simp
  have "filter (sameSummaryAndStart e) (firsts {} allEvents) =
        filter (\<lambda>x. eventKey x = eventKey e) (firsts {} allEvents)"
    using sub by (intro filter_cong) (auto simp: key)
  also have "\<dots> = [f]"
    by (simp add: filter_key_firsts f)
  finally have "filter (sameSummaryAndStart e) evs = [f]"
    unfolding evs by (rule filter_sortBy_single)
  with first show ?thesis by blast
qed

text \<open>
  Two VEVENTs with the summary \<open>Planning\<close> and the same start, with different uids and
  ends: the list holds the first one only.
\<close>

theorem dedup_first_seen_wins_witness:
  "collectEvents (fourWeeksAgo exampleToday) (sixWeeksLater exampleToday)
     [single ''plan-1'' ''Planning'' 1748858400000 1748862000000,
      single ''plan-2'' ''Planning'' 1748858400000 1748865600000] [] =
     Some [singleOn ''plan-1'' ''Planning'' 1748858400000 1748862000000,
           singleOn ''plan-2'' ''Planning'' 1748858400000 1748865600000] \<and>
   materialize (fourWeeksAgo exampleToday) (sixWeeksLater exampleToday)
     [single ''plan-1'' ''Planning'' 1748858400000 1748862000000,
      single ''plan-2'' ''Planning'' 1748858400000 1748865600000] =
     Some [singleOn ''plan-1'' ''Planning'' 1748858400000 1748862000000] \<and>
   fourWeeksAgo exampleToday = Some 1746403200000 \<and>
   filter (sameSummaryAndStart (singleOn ''plan-2'' ''Planning'' 1748858400000 1748865600000))
     [singleOn ''plan-1'' ''Planning'' 1748858400000 1748862000000] =
     [singleOn ''plan-1'' ''Planning'' 1748858400000 1748862000000]"
proof -
  have c: "collectEvents (fourWeeksAgo exampleToday) (sixWeeksLater exampleToday)
     [single ''plan-1'' ''Planning'' 1748858400000 1748862000000,
      single ''plan-2'' ''Planning'' 1748858400000 1748865600000] [] =
     Some [singleOn ''plan-1'' ''Planning'' 1748858400000 1748862000000,
           singleOn ''plan-2'' ''Planning'' 1748858400000 1748865600000]"
    by (rule collect_two_singles) (simp_all add: exampleToday_def day_ms_def)
  have m: "materialize (fourWeeksAgo exampleToday) (sixWeeksLater exampleToday)
     [single ''plan-1'' ''Planning'' 1748858400000 1748862000000,
      single ''plan-2'' ''Planning'' 1748858400000 1748865600000] =
     Some [singleOn ''plan-1'' ''Planning'' 1748858400000 1748862000000]"
    by (rule materialize_duplicate_singles) (simp_all add: exampleToday_def day_ms_def)
  have w: "fourWeeksAgo exampleToday = Some 1746403200000"
    by (simp add: fourWeeksAgo_def exampleToday_def day_ms_def timeClip_def maxTime_def)
  have mem: "singleOn ''plan-2'' ''Planning'' 1748858400000 1748865600000 \<in>
      set [singleOn ''plan-1'' ''Planning'' 1748858400000 1748862000000,
           singleOn ''plan-2'' ''Planning'' 1748858400000 1748865600000]"
    by simp
  from dedup_first_seen_wins [OF c m mem w]
  have "filter (sameSummaryAndStart (singleOn ''plan-2'' ''Planning'' 1748858400000 1748865600000))
     [singleOn ''plan-1'' ''Planning'' 1748858400000 1748862000000] =
     [singleOn ''plan-1'' ''Planning'' 1748858400000 1748862000000]"
    by (simp add: sameSummaryAndStart_def singleOn_def)
  with c m w show ?thesis by blast
qed

section \<open>C5: background refresh and notices\<close>

text \<open>
  Claim C5: a background refresh shows no \<open>Notice\<close>, on success or on failure. The code
  does not keep it: \<open>fetchCalendarEvents\<close> shows its notices only when \<open>isManual\<close> is set,
  but the \<open>catch\<close> of \<open>parseICSData\<close> shows its notice in every case. A background
  refresh (\<open>isManual = false\<close>) whose feed cannot be parsed ends with the notice
  \<open>Error parsing calendar data\<close>.
\<close>

theorem background_refresh_shows_notice:
  "map_option notices (fetchCalendarEvents brokenFeedHost False configuredPlugin) =
     Some [''Error parsing calendar data'']"
  by (simp add: fetchCalendarEvents_def parseICSData_def brokenFeedHost_def exampleHost_def
      configuredPlugin_def DEFAULT_SETTINGS_def notify_def Let_def)

text \<open>
  The other half of the claim holds: the events, the file and the settings after a
  manual refresh are those after a background refresh.
\<close>

lemma saveEvents_core:
  assumes "events q = events p" and "disk q = disk p" and "writable q = writable p"
    and "settings q = settings p"
  shows "events (saveEvents q) = events (saveEvents p) \<and>
         disk (saveEvents q) = disk (saveEvents p) \<and>
         settings (saveEvents q) = settings (saveEvents p)"
  using assms
  by (simp add: saveEvents_def saveEventsTry_def Let_def split: outcome.splits option.splits)

lemma parseICSData_core:
  "map_option events (parseICSData h icsData (notify msg p)) = map_option events (parseICSData h icsData p) \<and>
   map_option disk (parseICSData h icsData (notify msg p)) = map_option disk (parseICSData h icsData p) \<and>
   map_option settings (parseICSData h icsData (notify msg p)) = map_option settings (parseICSData h icsData p)"
proof (cases "h_ICAL_parse h icsData")
  case Throws
  then show ?thesis by (simp add: parseICSData_def notify_def)
next
  case (Returns vevents)
  show ?thesis
  proof (cases "materialize (fourWeeksAgo (h_now h)) (sixWeeksLater (h_now h)) vevents")
    case None
    with Returns show ?thesis by (simp add: parseICSData_def)
  next
    case (Some evs)
    have "events (saveEvents (notify msg p\<lparr>events := evs\<rparr>)) = events (saveEvents (p\<lparr>events := evs\<rparr>)) \<and>
          disk (saveEvents (notify msg p\<lparr>events := evs\<rparr>)) = disk (saveEvents (p\<lparr>events := evs\<rparr>)) \<and>
          settings (saveEvents (notify msg p\<lparr>events := evs\<rparr>)) = settings (saveEvents (p\<lparr>events := evs\<rparr>))"
      by (rule saveEvents_core) (simp_all add: notify_def)
    with Returns Some show ?thesis by (simp add: parseICSData_def)
  qed
qed

lemma manual_refresh_same_data:
  "map_option events (fetchCalendarEvents h True p) = map_option events (fetchCalendarEvents h False p) \<and>
   map_option disk (fetchCalendarEvents h True p) = map_option disk (fetchCalendarEvents h False p) \<and>
   map_option settings (fetchCalendarEvents h True p) = map_option settings (fetchCalendarEvents h False p)"
proof (cases "icsUrl (settings p) = []")
  case True
  then show ?thesis by (simp add: fetchCalendarEvents_def notify_def)
next
  case url: False
  show ?thesis
  proof (cases "h_requestUrl h (icsUrl (settings p))")
    case Throws
    with url show ?thesis
      by (simp add: fetchCalendarEvents_def fetchFailed_def notify_def Let_def)
  next
    case (Returns resp)
    show ?thesis
    proof (cases "resp_status resp = 200")
      case False
      with url Returns show ?thesis
        by (simp add: fetchCalendarEvents_def fetchFailed_def notify_def Let_def)
    next
      case True
      have s: "settings (notify msg q) = settings q" "events (notify msg q) = events q"
        "disk (notify msg q) = disk q" for msg q
        by (simp_all add: notify_def)
      from parseICSData_core [of h "resp_text resp" "''Fetching calendar events...''" p]
        url Returns True show ?thesis
        by (cases "parseICSData h (resp_text resp) p";
            cases "parseICSData h (resp_text resp) (notify ''Fetching calendar events...'' p)")
           (simp_all add: fetchCalendarEvents_def Let_def s)
    qed
  qed
qed

section \<open>ISO strings: reading back what toISOString writes\<close>

text \<open>
  \<open>new Date(d.toISOString())\<close> is \<open>d\<close> again for every valid date \<open>d\<close>. The proof
  follows the two functions: the year found by \<open>YearFromDay\<close> contains the day, the month
  table is inverted by \<open>monthStart\<close>, each field fits its width and is read back by
  \<open>readNat\<close>, and the fields add up to the time value.
\<close>

lemma div_bounds:
  assumes "(0::int) < b"
  shows "b * (a div b) \<le> a" and "a < b * (a div b) + b"
proof -
  have "a = b * (a div b) + a mod b" by simp
  moreover have "0 \<le> a mod b" "a mod b < b" using assms by simp_all
  ultimately show "b * (a div b) \<le> a" and "a < b * (a div b) + b" by linarith+
qed

lemma DayFromYear_bounds:
  "146097 * y - 287811690 \<le> 400 * DayFromYear y"
  "400 * DayFromYear y \<le> 146097 * y - 287810490"
proof -
  define A where "A = (y - 1969) div 4"
  define B where "B = (y - 1901) div 100"
  define C where "C = (y - 1601) div 400"
  have "4 * A \<le> y - 1969" "y - 1969 < 4 * A + 4"
    "100 * B \<le> y - 1901" "y - 1901 < 100 * B + 100"
    "400 * C \<le> y - 1601" "y - 1601 < 400 * C + 400"
    by (simp_all add: div_bounds A_def B_def C_def)
  moreover have "400 * DayFromYear y = 146000 * y - 287620000 + 400 * A - 400 * B + 400 * C"
    by (simp add: DayFromYear_def A_def B_def C_def)
  ultimately show "146097 * y - 287811690 \<le> 400 * DayFromYear y"
    and "400 * DayFromYear y \<le> 146097 * y - 287810490"
    by linarith+
qed

lemma div_step:
  fixes a b :: int
  assumes "0 < b"
  shows "(a + 1) div b = (if (a + 1) mod b = 0 then a div b + 1 else a div b)"
proof (cases "(a + 1) mod b = 0")
  case True
  then have "a + 1 = b * ((a + 1) div b)" by (metis mult_div_mod_eq add.right_neutral)
  then have "a = b * ((a + 1) div b - 1) + (b - 1)" by (simp add: algebra_simps)
  from int_div_pos_eq [OF this] assms have "a div b = (a + 1) div b - 1" by simp
  with True show ?thesis by simp
next
  case False
  define r where "r = (a + 1) mod b"
  have r: "0 \<le> r" "r < b" "r \<noteq> 0" using assms False by (simp_all add: r_def)
  have "a + 1 = b * ((a + 1) div b) + r" by (simp add: r_def)
  then have "a = b * ((a + 1) div b) + (r - 1)" by simp
  from int_div_pos_eq [OF this] r have "a div b = (a + 1) div b" by simp
  with False show ?thesis by simp
qed

lemma shifted_mod:
  "(y - 1968) mod 4 = y mod (4::int)"
  "(y - 1900) mod 100 = y mod (100::int)"
  "(y - 1600) mod 400 = y mod (400::int)"
  by (subst mod_diff_right_eq [symmetric], simp)+

lemma DayFromYear_next:
  "DayFromYear (y + 1) = DayFromYear y + (if InLeapYear y then 366 else 365)"
proof -
  have a: "(y + 1 - 1969) div 4 = (if y mod 4 = 0 then (y - 1969) div 4 + 1 else (y - 1969) div 4)"
    using div_step [of 4 "y - 1969"] shifted_mod(1) [of y] by (simp add: algebra_simps)
  have b: "(y + 1 - 1901) div 100 = (if y mod 100 = 0 then (y - 1901) div 100 + 1 else (y - 1901) div 100)"
    using div_step [of 100 "y - 1901"] shifted_mod(2) [of y] by (simp add: algebra_simps)
  have c: "(y + 1 - 1601) div 400 = (if y mod 400 = 0 then (y - 1601) div 400 + 1 else (y - 1601) div 400)"
    using div_step [of 400 "y - 1601"] shifted_mod(3) [of y] by (simp add: algebra_simps)
  have d: "y mod 400 = 0 \<Longrightarrow> y mod 100 = 0" "y mod 100 = 0 \<Longrightarrow> y mod 4 = 0"
    by presburger+
  show ?thesis
    unfolding DayFromYear_def InLeapYear_def a b c using d by auto
qed

lemma yearSearch_range: "y \<le> yearSearch n y d \<and> yearSearch n y d \<le> y + int n"
proof (induction n arbitrary: y)
  case 0
  show ?case by simp
next
  case (Suc n)
  from Suc [of "y + 1"] show ?case by auto
qed

lemma yearSearch_lower: "DayFromYear y \<le> d \<Longrightarrow> DayFromYear (yearSearch n y d) \<le> d"
  by (induction n arbitrary: y) auto

lemma yearSearch_upper:
  "d < DayFromYear (y + int n + 1) \<Longrightarrow> d < DayFromYear (yearSearch n y d + 1)"
proof (induction n arbitrary: y)
  case 0
  then show ?case by simp
next
  case (Suc n)
  show ?case
  proof (cases "DayFromYear (y + 1) \<le> d")
    case True
    from Suc.prems have "d < DayFromYear ((y + 1) + int n + 1)"
      by (simp add: add.commute add.left_commute)
    from Suc.IH [OF this] True show ?thesis by simp
  next
    case False
    then show ?thesis by simp
  qed
qed

lemma YearFromDay_correct:
  "DayFromYear (YearFromDay d) \<le> d" "d < DayFromYear (YearFromDay d + 1)"
proof -
  define q where "q = (400 * d) div 146097"
  have q: "146097 * q \<le> 400 * d" "400 * d < 146097 * q + 146097"
    unfolding q_def by (simp_all add: div_bounds)
  define y0 where "y0 = 1969 + q"
  define y4 where "y4 = y0 + int (Suc (Suc (Suc 0))) + 1"
  have y: "146097 * y0 = 146097 * q + 287664993" "146097 * y4 = 146097 * q + 288249381"
    by (simp_all add: y0_def y4_def)
  have lo: "DayFromYear y0 \<le> d"
    using DayFromYear_bounds(2) [of y0] q y by linarith
  have hi: "d < DayFromYear (y0 + int (Suc (Suc (Suc 0))) + 1)"
    using DayFromYear_bounds(1) [of y4] q y unfolding y4_def [symmetric] by linarith
  from yearSearch_lower [OF lo, of "Suc (Suc (Suc 0))"] show "DayFromYear (YearFromDay d) \<le> d"
    by (simp add: YearFromDay_def q_def y0_def)
  from yearSearch_upper [OF hi] show "d < DayFromYear (YearFromDay d + 1)"
    by (simp add: YearFromDay_def q_def y0_def)
qed


lemma month_of_day:
  assumes "0 \<le> dw" and "dw < (if leap then 366 else 365)"
  shows "MonthFromDay leap dw \<le> 11 \<and>
         monthStart leap (MonthFromDay leap dw) \<le> dw \<and>
         dw - monthStart leap (MonthFromDay leap dw) < daysInMonth leap (MonthFromDay leap dw)"
proof (cases leap)
  case True
    from assms True consider "0 \<le> dw \<and> dw < 31" | "31 \<le> dw \<and> dw < 60" | "60 \<le> dw \<and> dw < 91" | "91 \<le> dw \<and> dw < 121" | "121 \<le> dw \<and> dw < 152" | "152 \<le> dw \<and> dw < 182" | "182 \<le> dw \<and> dw < 213" | "213 \<le> dw \<and> dw < 244" | "244 \<le> dw \<and> dw < 274" | "274 \<le> dw \<and> dw < 305" | "305 \<le> dw \<and> dw < 335" | "335 \<le> dw \<and> dw < 366"
      by (simp, linarith)
    then show ?thesis
      by cases (simp_all add: MonthFromDay_def monthStart_def daysInMonth_def True)
next
  case False
    from assms False consider "0 \<le> dw \<and> dw < 31" | "31 \<le> dw \<and> dw < 59" | "59 \<le> dw \<and> dw < 90" | "90 \<le> dw \<and> dw < 120" | "120 \<le> dw \<and> dw < 151" | "151 \<le> dw \<and> dw < 181" | "181 \<le> dw \<and> dw < 212" | "212 \<le> dw \<and> dw < 243" | "243 \<le> dw \<and> dw < 273" | "273 \<le> dw \<and> dw < 304" | "304 \<le> dw \<and> dw < 334" | "334 \<le> dw \<and> dw < 365"
      by (simp, linarith)
    then show ?thesis
      by cases (simp_all add: MonthFromDay_def monthStart_def daysInMonth_def False)
qed

lemma time_of_day:
  fixes tw :: int
  shows "(tw div 3600000) * 3600000 + (tw div 60000 mod 60) * 60000 + (tw div 1000 mod 60) * 1000
           + tw mod 1000 = tw"
proof -
  define a where "a = tw div 1000"
  define b where "b = tw div 60000"
  define c where "c = tw div 3600000"
  have ab: "a div 60 = b" by (simp add: a_def b_def zdiv_zmult2_eq [symmetric])
  have bc: "b div 60 = c" by (simp add: b_def c_def zdiv_zmult2_eq [symmetric])
  have 1: "tw = 1000 * a + tw mod 1000" by (simp add: a_def)
  have 2: "a = 60 * b + a mod 60" using ab by (metis mult_div_mod_eq)
  have 3: "b = 60 * c + b mod 60" using bc by (metis mult_div_mod_eq)
  from 1 2 3 have "c * 3600000 + (b mod 60) * 60000 + (a mod 60) * 1000 + tw mod 1000 = tw"
    by linarith
  then show ?thesis by (simp add: a_def b_def c_def)
qed

lemma digitChar_props:
  assumes "d < 10"
  shows "digitValue (digitChar d) = d" and "isDigit (digitChar d)"
    and "digitChar d \<noteq> CHR ''+''" and "digitChar d \<noteq> CHR ''-''"
  using digit_cases [OF assms]
  by (auto simp: digitChar_def digitValue_def isDigit_def)

lemma length_pad [simp]: "length (pad w n) = w"
  by (induction w) simp_all

lemma digits_pad: "list_all isDigit (pad w n)"
  by (induction w) (simp_all add: digitChar_props)

lemma foldl_pad:
  "foldl (\<lambda>a c. 10 * a + digitValue c) a (pad w n) = a * 10 ^ w + n mod 10 ^ w"
proof (induction w arbitrary: a)
  case 0
  show ?case by simp
next
  case (Suc w)
  have m: "n mod (10 ^ w * 10) = 10 ^ w * (n div 10 ^ w mod 10) + n mod 10 ^ w"
    by (rule mod_mult2_eq)
  have "foldl (\<lambda>a c. 10 * a + digitValue c) a (pad (Suc w) n) =
        foldl (\<lambda>a c. 10 * a + digitValue c) (10 * a + n div 10 ^ w mod 10) (pad w n)"
    by (simp add: digitChar_props)
  also have "\<dots> = (10 * a + n div 10 ^ w mod 10) * 10 ^ w + n mod 10 ^ w"
    by (rule Suc)
  also have "\<dots> = a * 10 ^ Suc w + n mod 10 ^ Suc w"
    using m by (simp add: algebra_simps)
  finally show ?case .
qed

lemma readNat_pad: "n < 10 ^ w \<Longrightarrow> readNat (pad w n) = n"
  by (simp add: readNat_def foldl_pad)

lemma pad_first: "pad (Suc w) n = c # r \<Longrightarrow> c \<noteq> CHR ''+'' \<and> c \<noteq> CHR ''-''"
  using digitChar_props(3,4) [of "(n div 10 ^ w) mod 10"] by auto

lemma pad_zero: "0 < n \<Longrightarrow> n < 10 ^ 6 \<Longrightarrow> pad 6 n \<noteq> ''000000''"
proof
  assume n: "0 < n" "n < 10 ^ 6" and "pad 6 n = ''000000''"
  then have "readNat (pad 6 n) = readNat ''000000''" by simp
  with n show False
    by (simp add: readNat_pad) (simp add: readNat_def digitValue_def)
qed



lemma parse_isoText:
  assumes "length ys = w" and "list_all isDigit ys"
    and "mo < 100" "dt < 100" "hh < 100" "mi < 100" "ss < 100" "ms < 1000"
  shows "parseFields sign w (isoText ys mo dt hh mi ss ms) =
           makeDate (sign * int (readNat ys)) mo dt hh mi ss ms"
  using assms
  by (simp add: parseFields_def isoText_def Let_def nth_append digits_pad readNat_pad)


lemma newDate_plain:
  assumes "ys = c # r" and "c \<noteq> CHR ''+''" and "c \<noteq> CHR ''-''"
  shows "newDateFromString (isoText ys mo dt hh mi ss ms) =
           parseFields 1 4 (isoText ys mo dt hh mi ss ms)"
  using assms by (simp add: newDateFromString_def isoText_def)

lemma newDate_plus:
  "newDateFromString (isoText (CHR ''+'' # ys) mo dt hh mi ss ms) =
     parseFields 1 6 (isoText ys mo dt hh mi ss ms)"
  by (simp add: newDateFromString_def isoText_def)

lemma newDate_minus:
  assumes "length ys = 6" and "ys \<noteq> ''000000''"
  shows "newDateFromString (isoText (CHR ''-'' # ys) mo dt hh mi ss ms) =
           parseFields (- 1) 6 (isoText ys mo dt hh mi ss ms)"
  using assms by (simp add: newDateFromString_def isoText_def)

lemma makeDate_fields:
  assumes "0 \<le> dw" and "dw < (if InLeapYear y then 366 else 365)"
    and "0 \<le> tw" and "tw < 86400000"
    and "- maxTime \<le> (DayFromYear y + dw) * day_ms + tw"
    and "(DayFromYear y + dw) * day_ms + tw \<le> maxTime"
  shows "makeDate y (MonthFromDay (InLeapYear y) dw + 1)
           (nat (dw - monthStart (InLeapYear y) (MonthFromDay (InLeapYear y) dw)) + 1)
           (nat (tw div 3600000)) (nat (tw div 60000 mod 60)) (nat (tw div 1000 mod 60))
           (nat (tw mod 1000)) =
         Some ((DayFromYear y + dw) * day_ms + tw)"
proof -
  define m where "m = MonthFromDay (InLeapYear y) dw"
  define hh where "hh = tw div 3600000"
  define mi where "mi = tw div 60000 mod 60"
  define ss where "ss = tw div 1000 mod 60"
  define ms where "ms = tw mod 1000"
  from month_of_day [OF assms(1,2)] have m: "m \<le> 11" "monthStart (InLeapYear y) m \<le> dw"
    "dw - monthStart (InLeapYear y) m < daysInMonth (InLeapYear y) m"
    by (simp_all add: m_def)
  have h: "3600000 * hh \<le> tw" "tw < 3600000 * hh + 3600000"
    unfolding hh_def by (rule div_bounds, simp)+
  with assms(3,4) have hh: "0 \<le> hh" "hh < 24" by linarith+
  have mi: "0 \<le> mi" "mi < 60" unfolding mi_def by simp_all
  have ss: "0 \<le> ss" "ss < 60" unfolding ss_def by simp_all
  have ms: "0 \<le> ms" unfolding ms_def by simp
  have tod: "hh * 3600000 + mi * 60000 + ss * 1000 + ms = tw"
    unfolding hh_def mi_def ss_def ms_def by (rule time_of_day)
  have ints: "int (nat hh) = hh" "int (nat mi) = mi" "int (nat ss) = ss" "int (nat ms) = ms"
    using hh(1) mi(1) ss(1) ms by simp_all
  have day: "DayFromYear y + monthStart (InLeapYear y) (m + 1 - 1) +
      int (nat (dw - monthStart (InLeapYear y) m) + 1) - 1 = DayFromYear y + dw"
    using m(2) by simp
  have ok: "1 \<le> m + 1 \<and> m + 1 \<le> 12 \<and> 1 \<le> nat (dw - monthStart (InLeapYear y) m) + 1 \<and>
      int (nat (dw - monthStart (InLeapYear y) m) + 1) \<le> daysInMonth (InLeapYear y) (m + 1 - 1) \<and>
      nat hh < 24 \<and> nat mi < 60 \<and> nat ss < 60"
    using m hh mi ss by (simp add: nat_less_iff)
  have "makeDate y (m + 1) (nat (dw - monthStart (InLeapYear y) m) + 1)
           (nat hh) (nat mi) (nat ss) (nat ms) =
        timeClip ((DayFromYear y + monthStart (InLeapYear y) (m + 1 - 1) +
                   int (nat (dw - monthStart (InLeapYear y) m) + 1) - 1) * day_ms +
                  (int (nat hh) * 3600000 + int (nat mi) * 60000 +
                   int (nat ss) * 1000 + int (nat ms)))"
    unfolding makeDate_def using ok by (simp only: simp_thms if_True)
  also have "\<dots> = timeClip ((DayFromYear y + dw) * day_ms + tw)"
    unfolding day ints tod ..
  also have "\<dots> = Some ((DayFromYear y + dw) * day_ms + tw)"
    using assms(5,6) by (simp add: timeClip_def)
  finally show ?thesis
    unfolding m_def hh_def mi_def ss_def ms_def .
qed

lemma pad4_first: "\<exists>c r. pad 4 n = c # r \<and> c \<noteq> CHR ''+'' \<and> c \<noteq> CHR ''-''"
proof -
  have e: "(4::nat) = Suc 3" by simp
  have "pad 4 n = digitChar (n div 10 ^ 3 mod 10) # pad 3 n"
    by (subst e) (rule pad.simps(2))
  moreover have "n div 10 ^ 3 mod 10 < 10" by simp
  ultimately show ?thesis
    using digitChar_props(3,4) by blast
qed

lemma iso_round_trip:
  assumes "- maxTime \<le> t" and "t \<le> maxTime"
  shows "newDateFromString (toISOString t) = Some t"
proof -
  define d where "d = t div day_ms"
  define tw where "tw = t mod day_ms"
  define y where "y = YearFromDay d"
  define dw where "dw = d - DayFromYear y"
  define m where "m = MonthFromDay (InLeapYear y) dw"
  define dt where "dt = nat (dw - monthStart (InLeapYear y) m) + 1"
  have tw: "0 \<le> tw" "tw < 86400000"
    by (simp_all add: tw_def day_ms_def)
  have t: "(DayFromYear y + dw) * day_ms + tw = t"
    by (simp add: dw_def d_def tw_def)
  from YearFromDay_correct [of d] DayFromYear_next [of y]
  have dw: "0 \<le> dw" "dw < (if InLeapYear y then 366 else 365)"
    by (auto simp: dw_def y_def split: if_splits)
  from month_of_day [OF dw] have mr: "m \<le> 11"
    "dw - monthStart (InLeapYear y) m < daysInMonth (InLeapYear y) m"
    by (simp_all add: m_def)
  have dtr: "dt < 100"
    using mr(2) by (auto simp: dt_def daysInMonth_def split: if_splits)
  have fields: "m + 1 < 100" "nat (tw div 3600000) < 100" "nat (tw div 60000 mod 60) < 100"
    "nat (tw div 1000 mod 60) < 100" "nat (tw mod 1000) < 1000"
    using mr(1) tw by (simp_all add: nat_less_iff)
  have md: "makeDate y (m + 1) dt (nat (tw div 3600000)) (nat (tw div 60000 mod 60)) (nat (tw div 1000 mod 60))
      (nat (tw mod 1000)) = Some t"
    using makeDate_fields [OF dw tw] assms by (simp add: t m_def dt_def)
  have iso: "toISOString t = isoText (yearString y) (m + 1) dt (nat (tw div 3600000))
      (nat (tw div 60000 mod 60)) (nat (tw div 1000 mod 60)) (nat (tw mod 1000))"
    by (simp add: toISOString_def Let_def d_def tw_def y_def dw_def m_def dt_def)
  have dr: "- 100000000 \<le> d" "d \<le> 100000000"
    using assms div_bounds [of day_ms t] by (simp_all add: d_def maxTime_def day_ms_def)
  define q where "q = (400 * d) div 146097"
  have q: "146097 * q \<le> 400 * d" "400 * d < 146097 * q + 146097"
    by (simp_all add: q_def div_bounds)
  from yearSearch_range [of "1969 + q" "Suc (Suc (Suc 0))" d] have "1969 + q \<le> y" "y \<le> 1972 + q"
    by (simp_all add: y_def YearFromDay_def q_def)
  with q dr have yr: "- 999999 \<le> y" "y \<le> 999999" by linarith+
  have parse: "parseFields sign (length ys) (isoText ys (m + 1) dt (nat (tw div 3600000))
      (nat (tw div 60000 mod 60)) (nat (tw div 1000 mod 60)) (nat (tw mod 1000))) =
    makeDate (sign * int (readNat ys)) (m + 1) dt (nat (tw div 3600000)) (nat (tw div 60000 mod 60))
      (nat (tw div 1000 mod 60)) (nat (tw mod 1000))" if "list_all isDigit ys" for sign ys
    using refl that fields(1) dtr fields(2-5) by (rule parse_isoText)
  show ?thesis
  proof (cases "0 \<le> y \<and> y \<le> 9999")
    case True
    then have ys: "yearString y = pad 4 (nat y)" by (simp add: yearString_def)
    from pad4_first [of "nat y"] obtain c r where cr: "pad 4 (nat y) = c # r"
      and sign: "c \<noteq> CHR ''+''" "c \<noteq> CHR ''-''"
      by blast
    have "readNat (pad 4 (nat y)) = nat y"
    proof (rule readNat_pad)
      from True show "nat y < 10 ^ 4" by (auto simp: nat_less_iff)
    qed
    with True have rd: "1 * int (readNat (pad 4 (nat y))) = y" by simp
    have "newDateFromString (toISOString t) =
          parseFields 1 4 (isoText (pad 4 (nat y)) (m + 1) dt (nat (tw div 3600000))
            (nat (tw div 60000 mod 60)) (nat (tw div 1000 mod 60)) (nat (tw mod 1000)))"
      unfolding iso ys by (rule newDate_plain [OF cr sign])
    also have "\<dots> = makeDate (1 * int (readNat (pad 4 (nat y)))) (m + 1) dt (nat (tw div 3600000))
            (nat (tw div 60000 mod 60)) (nat (tw div 1000 mod 60)) (nat (tw mod 1000))"
      using parse [of "pad 4 (nat y)" 1] by (simp add: digits_pad)
    also have "\<dots> = Some t"
      unfolding rd by (rule md)
    finally show ?thesis .
  next
    case False
    have n: "0 < nat \<bar>y\<bar>" "nat \<bar>y\<bar> < 10 ^ 6"
      using False yr by (auto simp: nat_less_iff)
    have rd: "readNat (pad 6 (nat \<bar>y\<bar>)) = nat \<bar>y\<bar>"
      using n(2) by (rule readNat_pad)
    show ?thesis
    proof (cases "y < 0")
      case True
      with False have ys: "yearString y = CHR ''-'' # pad 6 (nat \<bar>y\<bar>)"
        by (simp add: yearString_def)
      from True have sg: "- 1 * int (readNat (pad 6 (nat \<bar>y\<bar>))) = y"
        unfolding rd by simp
      have "newDateFromString (toISOString t) =
            parseFields (- 1) 6 (isoText (pad 6 (nat \<bar>y\<bar>)) (m + 1) dt (nat (tw div 3600000))
              (nat (tw div 60000 mod 60)) (nat (tw div 1000 mod 60)) (nat (tw mod 1000)))"
        unfolding iso ys by (rule newDate_minus) (simp_all add: pad_zero [OF n])
      also have "\<dots> = makeDate (- 1 * int (readNat (pad 6 (nat \<bar>y\<bar>)))) (m + 1) dt
              (nat (tw div 3600000)) (nat (tw div 60000 mod 60)) (nat (tw div 1000 mod 60)) (nat (tw mod 1000))"
        using parse [of "pad 6 (nat \<bar>y\<bar>)" "- 1"] by (simp add: digits_pad)
      also have "\<dots> = Some t"
        unfolding sg by (rule md)
      finally show ?thesis .
    next
      case pos: False
      with False have ys: "yearString y = CHR ''+'' # pad 6 (nat \<bar>y\<bar>)"
        by (simp add: yearString_def)
      from pos have sg: "1 * int (readNat (pad 6 (nat \<bar>y\<bar>))) = y"
        unfolding rd by simp
      have "newDateFromString (toISOString t) =
            parseFields 1 6 (isoText (pad 6 (nat \<bar>y\<bar>)) (m + 1) dt (nat (tw div 3600000))
              (nat (tw div 60000 mod 60)) (nat (tw div 1000 mod 60)) (nat (tw mod 1000)))"
        unfolding iso ys by (rule newDate_plus)
      also have "\<dots> = makeDate (1 * int (readNat (pad 6 (nat \<bar>y\<bar>)))) (m + 1) dt
              (nat (tw div 3600000)) (nat (tw div 60000 mod 60)) (nat (tw div 1000 mod 60)) (nat (tw mod 1000))"
        using parse [of "pad 6 (nat \<bar>y\<bar>)" 1] by (simp add: digits_pad)
      also have "\<dots> = Some t"
        unfolding sg by (rule md)
      finally show ?thesis .
    qed
  qed
qed

text \<open>The two functions on the dates of the example event, and on the ends of the range.\<close>

lemma pad_numeral [simp]:
  "pad (numeral k) n = digitChar ((n div 10 ^ pred_numeral k) mod 10) # pad (pred_numeral k) n"
proof -
  have e: "numeral k = Suc (pred_numeral k)" by (rule numeral_eq_Suc)
  show ?thesis by (subst e) (rule pad.simps(2))
qed

lemma pad_one [simp]: "pad 1 n = [digitChar (n mod 10)]"
  using pad.simps(2) [of 0 n] by simp

lemmas iso_eval = newDateFromString_def parseFields_def makeDate_def isoText_def
  yearString_def YearFromDay_def DayFromYear_def InLeapYear_def MonthFromDay_def monthStart_def
  daysInMonth_def timeClip_def maxTime_def digitChar_def readNat_def digitValue_def isDigit_def

lemma planning_times:
  "toISOString 1748858400000 = ''2025-06-02T10:00:00.000Z''"
  "toISOString 1748862000000 = ''2025-06-02T11:00:00.000Z''"
  by (simp add: toISOString_def Let_def day_ms_def, simp add: iso_eval)+


lemma latest_date:
  "toISOString 8640000000000000 = ''+275760-09-13T00:00:00.000Z''"
  by (simp add: toISOString_def Let_def day_ms_def) (simp add: iso_eval)

lemma earliest_date:
  "toISOString (- 8640000000000000) = ''-271821-04-20T00:00:00.000Z''"
  by (simp add: toISOString_def Let_def day_ms_def) (simp add: iso_eval)

lemma no_such_day: "newDateFromString ''2025-02-30T10:00:00.000Z'' = None"
  by (simp add: iso_eval Let_def day_ms_def)

section \<open>C9: a missing or unparseable cache\<close>











section \<open>C10: saveEvents changes cachedEvents only\<close>

text \<open>
  Claim C10. \<open>saveEvents\<close> writes back the object it has read with \<open>cachedEvents\<close>
  replaced: every other property of the persisted object (\<open>icsUrl\<close>, \<open>templatePath\<close>,
  \<open>notesFolder\<close>, \<open>trimTeamsLinks\<close>, \<open>hideAllDayEvents\<close> and any other) reads after the
  call as before it, and the settings and events in memory are unchanged.
\<close>

theorem saveEvents_frame:
  assumes "k \<noteq> ''cachedEvents''"
  shows "persistedField (disk (saveEvents p)) k = persistedField (disk p) k \<and>
         settings (saveEvents p) = settings p \<and> events (saveEvents p) = events p"
  using assms
  by (auto simp: saveEvents_def saveEventsTry_def persistedField_def loadData_def Let_def
      split: disk_state.splits option.splits outcome.splits)

lemma save_planning:
  "disk (saveEvents (configuredPlugin \<lparr> events := [planning] \<rparr>)) =
     Stored (settingsOnDisk(''cachedEvents'' \<mapsto> PEvents [planningStored]))"
  by (simp add: saveEvents_def saveEventsTry_def loadData_def configuredPlugin_def
      storeEvent_def planning_def singleOn_def planningStored_def planning_times Let_def)

text \<open>Saving one event: \<open>icsUrl\<close> is as before, \<open>cachedEvents\<close> holds the event.\<close>

theorem saveEvents_frame_witness:
  "''icsUrl'' \<noteq> ''cachedEvents'' \<and>
   persistedField (disk (saveEvents (configuredPlugin \<lparr> events := [planning] \<rparr>)))
     ''icsUrl'' = Some (PString ''https://example.org/cal.ics'') \<and>
   persistedField (disk (saveEvents (configuredPlugin \<lparr> events := [planning] \<rparr>)))
     ''cachedEvents'' = Some (PEvents [planningStored])"
proof -
  have k: "''icsUrl'' \<noteq> ''cachedEvents''" by simp
  have "persistedField (disk (configuredPlugin \<lparr> events := [planning] \<rparr>)) ''icsUrl'' =
          Some (PString ''https://example.org/cal.ics'')"
    by (simp add: persistedField_def configuredPlugin_def settingsOnDisk_def)
  with saveEvents_frame [OF k, of "configuredPlugin \<lparr> events := [planning] \<rparr>"]
  have "persistedField (disk (saveEvents (configuredPlugin \<lparr> events := [planning] \<rparr>)))
     ''icsUrl'' = Some (PString ''https://example.org/cal.ics'')"
    by simp
  moreover have "persistedField (disk (saveEvents (configuredPlugin \<lparr> events := [planning] \<rparr>)))
     ''cachedEvents'' = Some (PEvents [planningStored])"
    by (simp add: save_planning persistedField_def)
  ultimately show ?thesis by simp
qed

section \<open>C8: save, then load\<close>

lemma restore_store:
  assumes "validDate (start ev)" and "validDate (end' ev)"
  shows "\<exists>se. storeEvent ev = Some se \<and> restoreEvent se = ev"
proof -
  from assms obtain s e where se: "start ev = Some s" "end' ev = Some e"
    and s: "- maxTime \<le> s" "s \<le> maxTime" and e: "- maxTime \<le> e" "e \<le> maxTime"
    by (auto simp: validDate_def split: option.splits)
  from s e have "newDateFromString (toISOString s) = Some s"
    "newDateFromString (toISOString e) = Some e"
    by (simp_all add: iso_round_trip)
  with se show ?thesis by (simp add: storeEvent_def restoreEvent_def)
qed

lemma restore_stores:
  "\<forall>ev \<in> set evs. validDate (start ev) \<and> validDate (end' ev) \<Longrightarrow>
     \<exists>ses. storeEvents evs = Some ses \<and> map restoreEvent ses = evs"
proof (induction evs)
  case Nil
  then show ?case by simp
next
  case (Cons ev evs)
  then obtain ses where ses: "storeEvents evs = Some ses" "map restoreEvent ses = evs"
    by auto
  from Cons.prems restore_store [of ev] obtain se where
    se: "storeEvent ev = Some se" "restoreEvent se = ev"
    by auto
  from ses se show ?case by simp
qed

text \<open>
  Claim C8. When every event has valid start and end dates, \<open>data.json\<close> can be read
  and written, then \<open>saveEvents\<close> followed by \<open>loadCachedEvents\<close> in a plugin that starts
  with no events gives the list that was saved: the same events in the same order, equal
  in uid, summary, description, location, attendees, start and end.
\<close>

theorem save_load_round_trip:
  assumes "\<forall>ev \<in> set (events p). validDate (start ev) \<and> validDate (end' ev)"
    and "disk p \<noteq> Unreadable" and "writable p"
  shows "events (loadCachedEvents ((saveEvents p) \<lparr> events := [] \<rparr>)) = events p"
proof -
  from restore_stores [OF assms(1)] obtain ses where
    ses: "storeEvents (events p) = Some ses" "map restoreEvent ses = events p"
    by blast
  from assms(2) obtain loaded where loaded: "loadData (disk p) = Returns loaded"
    by (cases "disk p") (simp_all add: loadData_def)
  define obj where "obj = (case loaded of None \<Rightarrow> Map.empty | Some obj \<Rightarrow> obj)"
  from ses(1) loaded assms(3) have
    "saveEvents p = p \<lparr> disk := Stored (obj(''cachedEvents'' \<mapsto> PEvents ses)) \<rparr>"
    by (simp add: saveEvents_def saveEventsTry_def obj_def Let_def)
  then show ?thesis
    by (simp add: loadCachedEvents_def loadCachedEventsTry_def loadData_def ses(2))
qed

text \<open>The example event, saved and loaded.\<close>

theorem save_load_round_trip_witness:
  "validDate (start planning) \<and> validDate (end' planning) \<and>
   disk (saveEvents (configuredPlugin \<lparr> events := [planning] \<rparr>)) =
     Stored (settingsOnDisk(''cachedEvents'' \<mapsto> PEvents [planningStored])) \<and>
   events (loadCachedEvents
     ((saveEvents (configuredPlugin \<lparr> events := [planning] \<rparr>)) \<lparr> events := [] \<rparr>)) =
     [planning]"
proof -
  have r: "validDate (start planning)" "validDate (end' planning)"
    by (simp_all add: validDate_def planning_def singleOn_def maxTime_def)
  then have all: "\<forall>ev \<in> set (events (configuredPlugin \<lparr> events := [planning] \<rparr>)).
      validDate (start ev) \<and> validDate (end' ev)"
    by simp
  have d: "disk (configuredPlugin \<lparr> events := [planning] \<rparr>) \<noteq> Unreadable"
    by (simp add: configuredPlugin_def)
  have w: "writable (configuredPlugin \<lparr> events := [planning] \<rparr>)"
    by (simp add: configuredPlugin_def)
  from save_load_round_trip [OF all d w] r save_planning show ?thesis by simp
qed

section \<open>C7: all-day events in the day view\<close>

lemma all_day_rule:
  assumes "isAllDayEvent z event"
    and "setHours z 0 0 0 0 date = Some dayStart"
    and "setHours z 23 59 59 999 date = Some dayEnd"
  shows "\<exists>shown. getEventsForDate z cfg evs date = Returns shown \<and>
           (event \<in> set shown) =
             (\<not> hideAllDayEvents cfg \<and> event \<in> set evs \<and>
              overlapsDay (start event) (minusOneMs (end' event)) (Some dayStart) (Some dayEnd))"
  using assms by (auto simp: getEventsForDate_def shownOnDay_def set_sortBy Let_def)

lemma getEventsForDate_throws:
  "(getEventsForDate z cfg evs date = Throws) =
     (setHours z 0 0 0 0 date = None \<or> setHours z 23 59 59 999 date = None)"
  by (simp add: getEventsForDate_def Let_def)

lemma june10_div: "0 \<le> q \<Longrightarrow> q < 86400000 \<Longrightarrow> (1749513600000 + q) div (86400000::int) = 20249"
  by simp

lemma june11_div: "0 \<le> q \<Longrightarrow> q < 86400000 \<Longrightarrow> (1749600000000 + q) div (86400000::int) = 20250"
  by simp

lemma fixedOffset_at:
  assumes "fixedOffsetBetween z c a b" and "a \<le> t" and "t \<le> b"
  shows "tzaAt z t = c" and "tzaOfLocal z t = c"
  using assms by (simp_all add: fixedOffsetBetween_def)

lemma allDayJune10_isAllDay:
  assumes "fixedOffsetBetween z c 1749340800000 1749772800000" and "\<bar>c\<bar> \<le> day_ms"
  shows "isAllDayEvent z (allDayJune10 c)"
proof -
  from assms(2) have "tzaAt z (1749513600000 - c) = c" "tzaAt z (1749600000000 - c) = c"
    by (auto intro!: fixedOffset_at(1) [OF assms(1)] simp: day_ms_def)
  then show ?thesis
    by (simp add: isAllDayEvent_def allDayJune10_def getHours_def getMinutes_def LocalTime_def)
qed

lemma june10_day:
  assumes "fixedOffsetBetween z c 1749340800000 1749772800000" and "\<bar>c\<bar> \<le> day_ms"
    and "0 \<le> q" and "q < day_ms"
  shows "setHours z 0 0 0 0 (Some (1749513600000 - c + q)) = Some (1749513600000 - c)"
    and "setHours z 23 59 59 999 (Some (1749513600000 - c + q)) = Some (1749600000000 - 1 - c)"
proof -
  from assms(2-4) have at: "tzaAt z (1749513600000 - c + q) = c"
    by (auto intro!: fixedOffset_at(1) [OF assms(1)] simp: day_ms_def)
  have loc: "tzaOfLocal z 1749513600000 = c" "tzaOfLocal z 1749599999999 = c"
    by (auto intro!: fixedOffset_at(2) [OF assms(1)])
  from assms(2-4) show "setHours z 0 0 0 0 (Some (1749513600000 - c + q)) = Some (1749513600000 - c)"
    by (auto simp: setHours_def LocalTime_def UTC_def at loc day_ms_def timeClip_def maxTime_def
        june10_div)
  from assms(2-4) show "setHours z 23 59 59 999 (Some (1749513600000 - c + q)) = Some (1749600000000 - 1 - c)"
    by (auto simp: setHours_def LocalTime_def UTC_def at loc day_ms_def timeClip_def maxTime_def
        june10_div)
qed

lemma june11_day:
  assumes "fixedOffsetBetween z c 1749340800000 1749772800000" and "\<bar>c\<bar> \<le> day_ms"
    and "0 \<le> q" and "q < day_ms"
  shows "setHours z 0 0 0 0 (Some (1749600000000 - c + q)) = Some (1749600000000 - c)"
    and "setHours z 23 59 59 999 (Some (1749600000000 - c + q)) = Some (1749686400000 - 1 - c)"
proof -
  from assms(2-4) have at: "tzaAt z (1749600000000 - c + q) = c"
    by (auto intro!: fixedOffset_at(1) [OF assms(1)] simp: day_ms_def)
  have loc: "tzaOfLocal z 1749600000000 = c" "tzaOfLocal z 1749686399999 = c"
    by (auto intro!: fixedOffset_at(2) [OF assms(1)])
  from assms(2-4) show "setHours z 0 0 0 0 (Some (1749600000000 - c + q)) = Some (1749600000000 - c)"
    by (auto simp: setHours_def LocalTime_def UTC_def at loc day_ms_def timeClip_def maxTime_def
        june11_div)
  from assms(2-4) show "setHours z 23 59 59 999 (Some (1749600000000 - c + q)) = Some (1749686400000 - 1 - c)"
    by (auto simp: setHours_def LocalTime_def UTC_def at loc day_ms_def timeClip_def maxTime_def
        june11_div)
qed

lemma allDayJune10_overlaps:
  assumes "\<bar>c\<bar> \<le> day_ms"
  shows "overlapsDay (start (allDayJune10 c)) (minusOneMs (end' (allDayJune10 c)))
           (Some (1749513600000 - c)) (Some (1749600000000 - 1 - c))"
    and "\<not> overlapsDay (start (allDayJune10 c)) (minusOneMs (end' (allDayJune10 c)))
           (Some (1749600000000 - c)) (Some (1749686400000 - 1 - c))"
  using assms
  by (auto simp: overlapsDay_def allDayJune10_def minusOneMs_def
      timeClip_def maxTime_def day_ms_def date_ge_def date_le_def date_lt_def date_gt_def)

lemma allDayJune10_shown:
  assumes "fixedOffsetBetween z c 1749340800000 1749772800000" and "\<bar>c\<bar> \<le> day_ms"
    and "0 \<le> q" and "q < day_ms" and "allDayJune10 c \<in> set evs"
  shows "\<exists>shown. getEventsForDate z cfg evs (Some (1749513600000 - c + q)) = Returns shown \<and>
           (allDayJune10 c \<in> set shown) = (\<not> hideAllDayEvents cfg)"
    and "\<exists>shown. getEventsForDate z cfg evs (Some (1749600000000 - c + q)) = Returns shown \<and>
           allDayJune10 c \<notin> set shown"
proof -
  note allDay = allDayJune10_isAllDay [OF assms(1,2)]
  from all_day_rule [OF allDay june10_day [OF assms(1-4)], of cfg evs]
    allDayJune10_overlaps(1) [OF assms(2)] assms(5)
  show "\<exists>shown. getEventsForDate z cfg evs (Some (1749513600000 - c + q)) = Returns shown \<and>
           (allDayJune10 c \<in> set shown) = (\<not> hideAllDayEvents cfg)"
    by auto
  from all_day_rule [OF allDay june11_day [OF assms(1-4)], of cfg evs]
    allDayJune10_overlaps(2) [OF assms(2)]
  show "\<exists>shown. getEventsForDate z cfg evs (Some (1749600000000 - c + q)) = Returns shown \<and>
           allDayJune10 c \<notin> set shown"
    by auto
qed

text \<open>
  Claim C7, as amended. For an event classified all-day and a query date whose day has
  valid bounds (the method throws otherwise), \<open>getEventsForDate\<close> returns the event
  exactly when the setting \<open>hideAllDayEvents\<close> is off, the event is in the list, and the
  overlap rule holds for its start and its end reduced by one millisecond; with the
  setting on, an all-day event is in no result. So the all-day event from 2025-06-10T00:00
  to 2025-06-11T00:00 local time is classified all-day, is in the result for every query
  date on 2025-06-10 exactly when the setting is off, and is in no result for a query date
  on 2025-06-11, in every time zone that keeps one offset of at most a day from 2025-06-08
  to 2025-06-13.
\<close>

theorem all_day_overlap:
  "(isAllDayEvent z event \<and> setHours z 0 0 0 0 date = Some dayStart \<and>
      setHours z 23 59 59 999 date = Some dayEnd \<longrightarrow>
      (\<exists>shown. getEventsForDate z cfg evs date = Returns shown \<and>
         (event \<in> set shown) =
           (\<not> hideAllDayEvents cfg \<and> event \<in> set evs \<and>
            overlapsDay (start event) (minusOneMs (end' event)) (Some dayStart) (Some dayEnd)))) \<and>
   (fixedOffsetBetween z c 1749340800000 1749772800000 \<and> \<bar>c\<bar> \<le> day_ms \<and>
      0 \<le> q \<and> q < day_ms \<and> allDayJune10 c \<in> set evs \<longrightarrow>
      isAllDayEvent z (allDayJune10 c) \<and>
      (\<exists>shown. getEventsForDate z cfg evs (Some (1749513600000 - c + q)) = Returns shown \<and>
         (allDayJune10 c \<in> set shown) = (\<not> hideAllDayEvents cfg)) \<and>
      (\<exists>shown. getEventsForDate z cfg evs (Some (1749600000000 - c + q)) = Returns shown \<and>
         allDayJune10 c \<notin> set shown)) \<and>
   (getEventsForDate z cfg evs date = Throws) =
     (setHours z 0 0 0 0 date = None \<or> setHours z 23 59 59 999 date = None)"
  using all_day_rule [of z event date dayStart dayEnd cfg evs]
    allDayJune10_isAllDay [of z c] allDayJune10_shown [of z c q evs cfg]
    getEventsForDate_throws [of z cfg evs date]
  by blast

text \<open>
  Helsinki, with the default settings. The all-day event of the day the clocks change, 23
  hours long, is classified all-day, shown at noon of 2025-03-30 and not at noon of
  2025-03-31; the all-day event of 2025-06-10 is shown at noon of that day and not at
  noon of the next.
\<close>

lemmas day_view_defs =
  getEventsForDate_def shownOnDay_def isAllDayEvent_def getHours_def getMinutes_def setHours_def
  LocalTime_def UTC_def overlapsDay_def minusOneMs_def timeClip_def maxTime_def day_ms_def
  date_ge_def date_le_def date_lt_def date_gt_def sortBy_def Let_def

lemma helsinki_june:
  "fixedOffsetBetween helsinki2025 10800000 1749340800000 1749772800000"
  by (simp add: fixedOffsetBetween_def helsinki2025_def)

lemma allDayMarch30_isAllDay: "isAllDayEvent helsinki2025 allDayMarch30"
  by (simp add: isAllDayEvent_def getHours_def getMinutes_def LocalTime_def helsinki2025_def
      allDayMarch30_def)

lemma march30_day:
  "setHours helsinki2025 0 0 0 0 (Some 1743325200000) = Some 1743285600000"
  "setHours helsinki2025 23 59 59 999 (Some 1743325200000) = Some 1743368399999"
  by (simp_all add: setHours_def LocalTime_def UTC_def helsinki2025_def day_ms_def timeClip_def
      maxTime_def)

lemma march31_day:
  "setHours helsinki2025 0 0 0 0 (Some 1743411600000) = Some 1743368400000"
  "setHours helsinki2025 23 59 59 999 (Some 1743411600000) = Some 1743454799999"
  by (simp_all add: setHours_def LocalTime_def UTC_def helsinki2025_def day_ms_def timeClip_def
      maxTime_def)

lemma allDayMarch30_shown:
  "getEventsForDate helsinki2025 DEFAULT_SETTINGS [allDayMarch30] (Some 1743325200000) =
     Returns [allDayMarch30]"
  "getEventsForDate helsinki2025 DEFAULT_SETTINGS [allDayMarch30] (Some 1743411600000) =
     Returns []"
  by (simp_all add: day_view_defs helsinki2025_def allDayMarch30_def DEFAULT_SETTINGS_def)

lemma allDayJune10_helsinki:
  "getEventsForDate helsinki2025 DEFAULT_SETTINGS [allDayJune10 10800000] (Some 1749546000000) =
     Returns [allDayJune10 10800000]"
  "getEventsForDate helsinki2025 DEFAULT_SETTINGS [allDayJune10 10800000] (Some 1749632400000) =
     Returns []"
  by (simp_all add: day_view_defs helsinki2025_def allDayJune10_def DEFAULT_SETTINGS_def)

theorem all_day_overlap_witness:
  "isAllDayEvent helsinki2025 allDayMarch30 \<and>
   setHours helsinki2025 0 0 0 0 (Some 1743411600000) = Some 1743368400000 \<and>
   setHours helsinki2025 23 59 59 999 (Some 1743411600000) = Some 1743454799999 \<and>
   getEventsForDate helsinki2025 DEFAULT_SETTINGS [allDayMarch30] (Some 1743325200000) =
     Returns [allDayMarch30] \<and>
   getEventsForDate helsinki2025 DEFAULT_SETTINGS [allDayMarch30] (Some 1743411600000) =
     Returns [] \<and>
   \<not> overlapsDay (start allDayMarch30) (minusOneMs (end' allDayMarch30))
       (Some 1743368400000) (Some 1743454799999) \<and>
   fixedOffsetBetween helsinki2025 10800000 1749340800000 1749772800000 \<and>
   isAllDayEvent helsinki2025 (allDayJune10 10800000) \<and>
   getEventsForDate helsinki2025 DEFAULT_SETTINGS [allDayJune10 10800000] (Some 1749546000000) =
     Returns [allDayJune10 10800000] \<and>
   getEventsForDate helsinki2025 DEFAULT_SETTINGS [allDayJune10 10800000] (Some 1749632400000) =
     Returns []"
proof -
  note rule = all_day_overlap [of helsinki2025 allDayMarch30 "Some 1743411600000"
      1743368400000 1743454799999 DEFAULT_SETTINGS "[allDayMarch30]" 10800000 43200000]
  from rule allDayMarch30_isAllDay march31_day allDayMarch30_shown(2)
  have march: "\<not> overlapsDay (start allDayMarch30) (minusOneMs (end' allDayMarch30))
       (Some 1743368400000) (Some 1743454799999)"
    by (auto simp: DEFAULT_SETTINGS_def)
  from all_day_overlap [of helsinki2025 "allDayJune10 10800000" "Some 1749546000000" _ _
      DEFAULT_SETTINGS "[allDayJune10 10800000]" 10800000 43200000] helsinki_june
  have june: "isAllDayEvent helsinki2025 (allDayJune10 10800000)"
    by (simp add: day_ms_def)
  from march june allDayMarch30_isAllDay march31_day allDayMarch30_shown helsinki_june
    allDayJune10_helsinki
  show ?thesis by simp
qed

text \<open>
  With \<open>hideAllDayEvents\<close> on, the all-day event of 2025-06-10 is not in the result for
  noon of 2025-06-10.
\<close>

theorem hidden_all_day_event:
  "isAllDayEvent helsinki2025 (allDayJune10 10800000) \<and> hideAllDayEvents hidingAllDay \<and>
   getEventsForDate helsinki2025 hidingAllDay [allDayJune10 10800000] (Some 1749546000000) =
     Returns []"
  by (simp add: day_view_defs helsinki2025_def allDayJune10_def hidingAllDay_def
      DEFAULT_SETTINGS_def)

end
